theory Spec2Isabelle
  imports Complex_Main "HOL-Library.Multiset"
begin

section \<open>Python values and exceptions\<close>

text \<open>
  Every exception the modelled code can raise is a value of \<open>error\<close>; a function that
  may raise returns \<open>error + 'a\<close> with \<open>Inl\<close> for the exception.
\<close>

datatype error =
    KeyError
  | IndexError
  | AttributeError
  | NotImplementedError
  | ValueError
  | LinAlgError

text \<open>
  The values stored in a per-surface options dictionary are opaque to the tracer; the only
  thing it does with one is test its truth value (\<^verbatim>\<open>not surfoptions.get("is_mirror", False)\<close>).
\<close>

datatype pyval = PyNone | PyBool bool | PyInt int | PyStr string

fun truthy :: "pyval \<Rightarrow> bool" where
  "truthy PyNone = False"
| "truthy (PyBool b) = b"
| "truthy (PyInt i) = (i \<noteq> 0)"
| "truthy (PyStr s) = (s \<noteq> [])"

type_synonym options_dict = "string \<rightharpoonup> pyval"

section \<open>Hitlist codec (\<^verbatim>\<open>OpticalElement.sequence_to_hitlist\<close>)\<close>

type_synonym 'k hit = "'k \<times> 'k \<times> int"

text \<open>
  The body of the \<^verbatim>\<open>for ((sb, optsb), (se, optse)) in zip(...)\<close> loop, with the three
  mutable locals \<^verbatim>\<open>hitlist_dict\<close>, \<^verbatim>\<open>hitlist\<close> and \<^verbatim>\<open>optionshitlistdict\<close> threaded through.
\<close>

fun hitlist_loop ::
  "('k \<times> 'k \<rightharpoonup> int) \<Rightarrow> 'k hit list \<Rightarrow> ('k hit \<rightharpoonup> 'o \<times> 'o) \<Rightarrow>
   (('k \<times> 'o) \<times> ('k \<times> 'o)) list \<Rightarrow> 'k hit list \<times> ('k hit \<rightharpoonup> 'o \<times> 'o)" where
  "hitlist_loop hitlist_dict hitlist optionshitlistdict [] = (hitlist, optionshitlistdict)"
| "hitlist_loop hitlist_dict hitlist optionshitlistdict (((sb, optsb), (se, optse)) # rest) =
     (let hit = (case hitlist_dict (sb, se) of None \<Rightarrow> 0 | Some h \<Rightarrow> h) + 1 in
      hitlist_loop (hitlist_dict((sb, se) \<mapsto> hit))
                   (hitlist @ [(sb, se, hit)])
                   (optionshitlistdict((sb, se, hit) \<mapsto> (optsb, optse)))
                   rest)"

definition sequence_to_hitlist ::
  "('k \<times> 'o) list \<Rightarrow> 'k hit list \<times> ('k hit \<rightharpoonup> 'o \<times> 'o)" where
  "sequence_to_hitlist seq =
     (let surfnames = seq in
      hitlist_loop Map.empty [] Map.empty (zip (butlast surfnames) (tl surfnames)))"

text \<open>The hit indices recorded in a hitlist for the ordered surface-key pair \<open>(a, b)\<close>.\<close>

definition hits_of :: "'k \<Rightarrow> 'k \<Rightarrow> 'k hit list \<Rightarrow> int list" where
  "hits_of a b hl = map (\<lambda>(sb, se, hit). hit) (filter (\<lambda>(sb, se, hit). sb = a \<and> se = b) hl)"

text \<open>How many consecutive pairs of a sequence go from surface \<open>a\<close> to surface \<open>b\<close>.\<close>

definition pair_count :: "'k \<Rightarrow> 'k \<Rightarrow> (('k \<times> 'o) \<times> ('k \<times> 'o)) list \<Rightarrow> nat" where
  "pair_count a b ps = length (filter (\<lambda>((sb, _), (se, _)). sb = a \<and> se = b) ps)"

section \<open>Objects: ray bundles, ray paths and materials\<close>

text \<open>
  Ray bundles are mutable objects: \<^verbatim>\<open>propagate\<close> changes a bundle in place, a ray path holds
  references to its bundles, and \<^verbatim>\<open>deepcopy\<close> creates new objects. The bundle objects
  therefore live in an explicit store, a list indexed by address; allocating an object
  appends to the list. A material is identified by its object identity (\<^verbatim>\<open>id(mat)\<close>).
\<close>

type_synonym ref = nat
type_synonym mref = nat

text \<open>
  Modelled from the spec: the Material classes are not part of the sources, only their
  calls in \<^verbatim>\<open>seqtrace\<close> are. Section 6 of the specification gives the contract:
  \<^verbatim>\<open>propagate(bundle, surface)\<close> advances the bundle in place and returns nothing (here: the
  new content of the bundle object); \<^verbatim>\<open>refract\<close> and \<^verbatim>\<open>reflect\<close> take the bundle, the surface and
  \<^verbatim>\<open>splitup\<close> and return an ordered list of newly created bundles (here: their contents, for
  which the tracer's model allocates fresh objects). The contract's "nonempty" is not
  built in: an empty list makes \<^verbatim>\<open>raybundles[0]\<close> raise.
\<close>

record ('b, 's) material =
  propagate :: "'b \<Rightarrow> 's \<Rightarrow> 'b"
  refract :: "'b \<Rightarrow> 's \<Rightarrow> bool \<Rightarrow> 'b list"
  reflect :: "'b \<Rightarrow> 's \<Rightarrow> bool \<Rightarrow> 'b list"

text \<open>
  The three private dictionaries of \<^verbatim>\<open>OpticalElement\<close>. The material dictionary holds
  references to material objects.
\<close>

record ('k, 'mk, 's) optical_element =
  surfaces :: "'k \<rightharpoonup> 's"
  materials :: "'mk \<rightharpoonup> mref"
  surf_mat_connection :: "'k \<rightharpoonup> 'mk \<times> 'mk"

text \<open>
  Modelled from the spec: class \<^verbatim>\<open>RayPath\<close> (module \<^verbatim>\<open>ray\<close>) is not part of the sources. By
  section 3 a ray path is an ordered sequence of ray bundles, created from one initial
  bundle and grown by appending: here the list \<^verbatim>\<open>raybundles\<close> of bundle references, with
  \<^verbatim>\<open>RayPath(b)\<close> the one-element list and \<^verbatim>\<open>appendRayBundle\<close> appending at the end.
\<close>

type_synonym raypath = "ref list"

definition RayPath :: "ref \<Rightarrow> raypath" where
  "RayPath raybundle = [raybundle]"

definition appendRayBundle :: "raypath \<Rightarrow> ref \<Rightarrow> raypath" where
  "appendRayBundle rp rb = rp @ [rb]"

text \<open>The bundle contents a path refers to in a given store.\<close>

definition deref :: "'b list \<Rightarrow> raypath \<Rightarrow> 'b list" where
  "deref h rp = map (\<lambda>r. h ! r) rp"

text \<open>
  \<^verbatim>\<open>copy.deepcopy\<close> of a ray path: every bundle object reachable from the path is copied
  into a new object, once (the memo dictionary maps an already copied object to its copy).
\<close>

fun deepcopy_memo :: "'b list \<Rightarrow> (ref \<rightharpoonup> ref) \<Rightarrow> ref list \<Rightarrow> 'b list \<times> ref list" where
  "deepcopy_memo h memo [] = (h, [])"
| "deepcopy_memo h memo (r # rs) =
     (case memo r of
        Some r' \<Rightarrow> (let (h', rs') = deepcopy_memo h memo rs in (h', r' # rs'))
      | None \<Rightarrow>
          (let r' = length h;
               (h', rs') = deepcopy_memo (h @ [h ! r]) (memo(r \<mapsto> r')) rs
           in (h', r' # rs')))"

definition deepcopy :: "'b list \<Rightarrow> raypath \<Rightarrow> 'b list \<times> raypath" where
  "deepcopy h rp = deepcopy_memo h Map.empty rp"

section \<open>Sequential tracer (\<^verbatim>\<open>OpticalElement.seqtrace\<close>)\<close>

definition findoutWhichMaterial :: "mref \<Rightarrow> mref \<Rightarrow> mref \<Rightarrow> mref" where
  "findoutWhichMaterial mat1 mat2 current_mat =
     (if mat1 = current_mat then mat2 else mat1)"

text \<open>
  A record of the calls made on material objects: which material object (by identity)
  was asked to do what on which bundle object.
\<close>

datatype call = Propagate mref ref | Refract mref ref | Reflect mref ref

text \<open>
  The local variables of \<^verbatim>\<open>seqtrace\<close> that live across loop iterations, together with the
  bundle store and the calls made so far.
\<close>

record 'b trace_state =
  heap :: "'b list"
  current_material :: mref
  rpaths :: "raypath list"
  calls :: "call list"

text \<open>
  \<^verbatim>\<open>for rp in rpaths: current_bundle = rp.raybundles[-1]; current_material.propagate(...)\<close>.
  The argument \<open>prop\<close> is the bound method with the surface supplied.
\<close>

fun propagate_all ::
  "('b \<Rightarrow> 'b) \<Rightarrow> mref \<Rightarrow> raypath list \<Rightarrow> 'b list \<times> call list \<Rightarrow> error + ('b list \<times> call list)" where
  "propagate_all prop m [] (h, cs) = Inr (h, cs)"
| "propagate_all prop m (rp # rps) (h, cs) =
     (if rp = [] then Inl IndexError
      else let current_bundle = last rp in
        propagate_all prop m rps
          (h[current_bundle := prop (h ! current_bundle)], cs @ [Propagate m current_bundle]))"

text \<open>
  \<^verbatim>\<open>for rb in raybundles[1:]: rpathprime = deepcopy(rp); rpathprime.appendRayBundle(rb);
  rpaths_new.append(rpathprime)\<close>; returns the store and the paths appended to \<^verbatim>\<open>rpaths_new\<close>.
\<close>

fun copy_branches :: "'b list \<Rightarrow> raypath \<Rightarrow> ref list \<Rightarrow> 'b list \<times> raypath list" where
  "copy_branches h rp [] = (h, [])"
| "copy_branches h rp (rb # rbs) =
     (let (h1, rpathprime) = deepcopy h rp;
          (h2, rest) = copy_branches h1 rp rbs
      in (h2, appendRayBundle rpathprime rb # rest))"

text \<open>
  The body of the loop over the live paths in either branch of \<^verbatim>\<open>if refract_flag\<close> (the two
  branches differ only in the method called). \<open>interact\<close> is the bound method
  (\<^verbatim>\<open>refract\<close> or \<^verbatim>\<open>reflect\<close>) with surface and \<^verbatim>\<open>splitup\<close> supplied; the bundles it returns are
  new objects. The result is the store, the path \<^verbatim>\<open>rp\<close> after
  \<^verbatim>\<open>rp.appendRayBundle(raybundles[0])\<close>, and the paths added to \<^verbatim>\<open>rpaths_new\<close>.
\<close>

definition interact_path ::
  "('b \<Rightarrow> 'b list) \<Rightarrow> 'b list \<Rightarrow> raypath \<Rightarrow> error + ('b list \<times> raypath \<times> raypath list)" where
  "interact_path interact h rp =
     (if rp = [] then Inl IndexError
      else
        let current_bundle = last rp;
            created = interact (h ! current_bundle);
            raybundles = [length h ..< length h + length created];
            (h2, new) = copy_branches (h @ created) rp (tl raybundles)
        in (case raybundles of
              [] \<Rightarrow> Inl IndexError
            | rb0 # _ \<Rightarrow> Inr (h2, appendRayBundle rp rb0, new)))"

fun interact_all ::
  "('b \<Rightarrow> 'b list) \<Rightarrow> (ref \<Rightarrow> call) \<Rightarrow> raypath list \<Rightarrow> 'b list \<times> call list \<Rightarrow>
   error + ('b list \<times> call list \<times> raypath list \<times> raypath list)" where
  "interact_all interact ev [] (h, cs) = Inr (h, cs, [], [])"
| "interact_all interact ev (rp # rps) (h, cs) =
     (case interact_path interact h rp of
        Inl e \<Rightarrow> Inl e
      | Inr (h1, rp', new) \<Rightarrow>
          (case interact_all interact ev rps (h1, cs @ [ev (last rp)]) of
             Inl e \<Rightarrow> Inl e
           | Inr (h2, cs2, rps', news) \<Rightarrow> Inr (h2, cs2, rp' # rps', new @ news)))"

text \<open>\<^verbatim>\<open>surfoptions.get("is_mirror", False)\<close>, negated.\<close>

definition refract_flag :: "options_dict \<Rightarrow> bool" where
  "refract_flag surfoptions =
     (\<not> truthy (case surfoptions ''is_mirror'' of None \<Rightarrow> PyBool False | Some v \<Rightarrow> v))"

text \<open>\<^verbatim>\<open>self.__materials.get(key, background_medium)\<close>.\<close>

definition material_or_background :: "('mk \<rightharpoonup> mref) \<Rightarrow> 'mk \<Rightarrow> mref \<Rightarrow> mref" where
  "material_or_background ms key background_medium =
     (case ms key of None \<Rightarrow> background_medium | Some m \<Rightarrow> m)"

text \<open>
  One iteration of \<^verbatim>\<open>for (surfkey, surfoptions) in sequence\<close>. \<open>objs\<close> gives the methods of
  the material object with a given identity.
\<close>

definition seqtrace_step ::
  "('k, 'mk, 's) optical_element \<Rightarrow> (mref \<Rightarrow> ('b, 's) material) \<Rightarrow> mref \<Rightarrow> bool \<Rightarrow>
   'b trace_state \<Rightarrow> 'k \<times> options_dict \<Rightarrow> error + 'b trace_state" where
  "seqtrace_step el objs background_medium splitup st entry =
     (case entry of (surfkey, surfoptions) \<Rightarrow>
      (case surfaces el surfkey of
         None \<Rightarrow> Inl KeyError
       | Some current_surface \<Rightarrow>
      (case surf_mat_connection el surfkey of
         None \<Rightarrow> Inl KeyError
       | Some (mnkey, pnkey) \<Rightarrow>
      (let mnmat = material_or_background (materials el) mnkey background_medium;
           pnmat = material_or_background (materials el) pnkey background_medium;
           cur = current_material st
       in
      (case propagate_all (\<lambda>b. propagate (objs cur) b current_surface) cur (rpaths st)
              (heap st, calls st) of
         Inl e \<Rightarrow> Inl e
       | Inr hc \<Rightarrow>
           if refract_flag surfoptions then
             (let cur' = findoutWhichMaterial mnmat pnmat cur in
              (case interact_all (\<lambda>b. refract (objs cur') b current_surface splitup)
                      (Refract cur') (rpaths st) hc of
                 Inl e \<Rightarrow> Inl e
               | Inr (h, cs, rps, rpaths_new) \<Rightarrow>
                   Inr \<lparr>heap = h, current_material = cur', rpaths = rps @ rpaths_new,
                        calls = cs\<rparr>))
           else
             (case interact_all (\<lambda>b. reflect (objs cur) b current_surface splitup)
                     (Reflect cur) (rpaths st) hc of
                Inl e \<Rightarrow> Inl e
              | Inr (h, cs, rps, rpaths_new) \<Rightarrow>
                  Inr \<lparr>heap = h, current_material = cur, rpaths = rps @ rpaths_new,
                       calls = cs\<rparr>))))))"

fun seqtrace_loop ::
  "('k, 'mk, 's) optical_element \<Rightarrow> (mref \<Rightarrow> ('b, 's) material) \<Rightarrow> mref \<Rightarrow> bool \<Rightarrow>
   'b trace_state \<Rightarrow> ('k \<times> options_dict) list \<Rightarrow> error + 'b trace_state" where
  "seqtrace_loop el objs background_medium splitup st [] = Inr st"
| "seqtrace_loop el objs background_medium splitup st (entry # sequence) =
     (case seqtrace_step el objs background_medium splitup st entry of
        Inl e \<Rightarrow> Inl e
      | Inr st' \<Rightarrow> seqtrace_loop el objs background_medium splitup st' sequence)"

text \<open>
  The state before the loop: the caller's bundle object is the only object (address 0),
  \<^verbatim>\<open>current_material = background_medium\<close>, \<^verbatim>\<open>rpaths = [RayPath(raybundle)]\<close>.
\<close>

definition seqtrace_init :: "'b \<Rightarrow> mref \<Rightarrow> 'b trace_state" where
  "seqtrace_init raybundle background_medium =
     \<lparr>heap = [raybundle], current_material = background_medium, rpaths = [RayPath 0],
      calls = []\<rparr>"

text \<open>
  \<^verbatim>\<open>seqtrace\<close> returns \<^verbatim>\<open>rpaths\<close>; the model returns the whole final state, of which
  \<open>rpaths\<close> is the returned list and \<open>heap\<close> holds the bundles the paths refer to.
\<close>

definition seqtrace ::
  "('k, 'mk, 's) optical_element \<Rightarrow> (mref \<Rightarrow> ('b, 's) material) \<Rightarrow> 'b \<Rightarrow>
   ('k \<times> options_dict) list \<Rightarrow> mref \<Rightarrow> bool \<Rightarrow> error + 'b trace_state" where
  "seqtrace el objs raybundle sequence background_medium splitup =
     seqtrace_loop el objs background_medium splitup
       (seqtrace_init raybundle background_medium) sequence"

text \<open>
  The returned ray paths as values: the list of bundle contents of each path.
\<close>

definition path_values :: "'b trace_state \<Rightarrow> 'b list list" where
  "path_values st = map (deref (heap st)) (rpaths st)"

text \<open>
  The ray paths of a state are well formed when no path is empty, no bundle object occurs
  twice (neither within a path nor in two paths), and every reference is the address of
  an object in the store. The initial state is well formed, and the loop keeps it so.
\<close>

definition wf_paths :: "'b list \<Rightarrow> raypath list \<Rightarrow> bool" where
  "wf_paths h rps \<longleftrightarrow>
     (\<forall>rp \<in> set rps. rp \<noteq> []) \<and> distinct (concat rps) \<and>
     (\<forall>r \<in> set (concat rps). r < length h)"

definition wf_state :: "'b trace_state \<Rightarrow> bool" where
  "wf_state st \<longleftrightarrow> wf_paths (heap st) (rpaths st)"

section \<open>A small optical element for concrete runs\<close>

text \<open>
  Two surfaces around a piece of glass (material object 1) in a background medium
  (material object 0), and a third surface between the glass and oil (material object 2).
  A bundle's content is the list of stations it has reached: every
  material appends the station 0 on propagation, refraction starts a bundle at station 1
  (and a second one at station 2 when asked to split up), reflection starts one at
  station 3.
\<close>

definition example_element :: "(string, string, unit) optical_element" where
  "example_element =
     \<lparr>surfaces = [''s1'' \<mapsto> (), ''s2'' \<mapsto> (), ''s3'' \<mapsto> ()],
      materials = [''glass'' \<mapsto> 1, ''oil'' \<mapsto> 2],
      surf_mat_connection =
        [''s1'' \<mapsto> (''air'', ''glass''), ''s2'' \<mapsto> (''glass'', ''air''),
         ''s3'' \<mapsto> (''glass'', ''oil'')]\<rparr>"

definition example_material :: "(nat list, unit) material" where
  "example_material =
     \<lparr>propagate = (\<lambda>b s. b @ [0]),
      refract = (\<lambda>b s splitup. if splitup then [[1], [2]] else [[1]]),
      reflect = (\<lambda>b s splitup. [[3]])\<rparr>"

definition example_objs :: "mref \<Rightarrow> (nat list, unit) material" where
  "example_objs m = example_material"


section \<open>Dispersion formulas (\<^verbatim>\<open>glasscatalog.IndexFormulaContainer\<close>)\<close>

text \<open>
  The local functions of \<^verbatim>\<open>set_n_function\<close>, one of which becomes the object's
  \<^verbatim>\<open>n_function\<close>. The two formulas for \<^verbatim>\<open>"formula  4"\<close> are the ones with 9 or less and with 11
  or more coefficients.
\<close>

datatype n_formula =
    Sellmeier
  | Sellmeier2
  | Polynomial
  | formula_with_9_or_less_coefficients
  | formula_with_11_or_more_coefficients
  | Cauchy
  | Gases
  | Herzberger
  | Retro
  | Exotic

datatype 'f n_function = Interp1d_n 'f | Formula n_formula

datatype 'f k_function = Interp1d_k 'f | Lossless

text \<open>
  The numerical libraries the class calls. The bodies of the eight implemented formulas
  are floating-point array expressions of numpy; the model takes their value as given
  (\<open>formula_value\<close>), and likewise scipy's interpolation: \<open>interp1d\<close> builds an interpolant
  from the two rows of a coefficient table (or raises), \<open>interp_call\<close> evaluates one, and
  \<open>coeff_len\<close> is \<^verbatim>\<open>len\<close> of a coefficient array.
\<close>

record ('c, 'f) numerics =
  interp1d :: "'c \<Rightarrow> error + 'f"
  interp_call :: "'f \<Rightarrow> real \<Rightarrow> error + real"
  coeff_len :: "'c \<Rightarrow> nat"
  formula_value :: "n_formula \<Rightarrow> 'c \<Rightarrow> real \<Rightarrow> error + real"

text \<open>
  The attributes of an \<^verbatim>\<open>IndexFormulaContainer\<close> object; \<open>None\<close> is an attribute that has
  not been set. The attribute \<^verbatim>\<open>n_fucntion\<close> is the one the branch for \<^verbatim>\<open>"formula  8"\<close>
  assigns.
\<close>

record ('c, 'f) container =
  n_coeff :: "'c option"
  n_function :: "'f n_function option"
  n_fucntion :: "'f n_function option"
  k_coeff :: "'c option"
  k_function :: "'f k_function option"

definition new_object :: "('c, 'f) container" where
  "new_object =
     \<lparr>n_coeff = None, n_function = None, n_fucntion = None, k_coeff = None,
      k_function = None\<rparr>"

definition set_n_function ::
  "('c, 'f) numerics \<Rightarrow> ('c, 'f) container \<Rightarrow> pyval \<Rightarrow> 'c \<Rightarrow> error + ('c, 'f) container" where
  "set_n_function np self n_typ coeff =
     (let self = self\<lparr>n_coeff := Some coeff\<rparr> in
      if n_typ = PyStr ''tabulated n'' then
        (case interp1d np coeff of
           Inl e \<Rightarrow> Inl e
         | Inr f \<Rightarrow> Inr (self\<lparr>n_function := Some (Interp1d_n f)\<rparr>))
      else if n_typ = PyStr ''formula  1'' then
        Inr (self\<lparr>n_function := Some (Formula Sellmeier)\<rparr>)
      else if n_typ = PyStr ''formula  2'' then
        Inr (self\<lparr>n_function := Some (Formula Sellmeier2)\<rparr>)
      else if n_typ = PyStr ''formula  3'' then
        Inr (self\<lparr>n_function := Some (Formula Polynomial)\<rparr>)
      else if n_typ = PyStr ''formula  4'' then
        (if coeff_len np coeff > 10 then
           Inr (self\<lparr>n_function := Some (Formula formula_with_11_or_more_coefficients)\<rparr>)
         else
           Inr (self\<lparr>n_function := Some (Formula formula_with_9_or_less_coefficients)\<rparr>))
      else if n_typ = PyStr ''formula  5'' then
        Inr (self\<lparr>n_function := Some (Formula Cauchy)\<rparr>)
      else if n_typ = PyStr ''formula  6'' then
        Inr (self\<lparr>n_function := Some (Formula Gases)\<rparr>)
      else if n_typ = PyStr ''formula  7'' then
        Inr (self\<lparr>n_function := Some (Formula Herzberger)\<rparr>)
      else if n_typ = PyStr ''formula  8'' then
        Inr (self\<lparr>n_fucntion := Some (Formula Retro)\<rparr>)
      else if n_typ = PyStr ''formula  9'' then
        Inr (self\<lparr>n_function := Some (Formula Exotic)\<rparr>)
      else Inr self)"

definition set_k_function ::
  "('c, 'f) numerics \<Rightarrow> ('c, 'f) container \<Rightarrow> pyval \<Rightarrow> 'c \<Rightarrow> error + ('c, 'f) container" where
  "set_k_function np self k_typ coeff =
     (let self = self\<lparr>k_coeff := Some coeff\<rparr> in
      if k_typ = PyStr ''tabulated k'' then
        (case interp1d np coeff of
           Inl e \<Rightarrow> Inl e
         | Inr f \<Rightarrow> Inr (self\<lparr>k_function := Some (Interp1d_k f)\<rparr>))
      else Inr (self\<lparr>k_function := Some Lossless\<rparr>))"

text \<open>\<^verbatim>\<open>IndexFormulaContainer.__init__\<close> on a new object.\<close>

definition IndexFormulaContainer ::
  "('c, 'f) numerics \<Rightarrow> pyval \<Rightarrow> 'c \<Rightarrow> pyval \<Rightarrow> 'c \<Rightarrow> error + ('c, 'f) container" where
  "IndexFormulaContainer np n_typ n_coeff0 k_typ k_coeff0 =
     (case set_n_function np new_object n_typ n_coeff0 of
        Inl e \<Rightarrow> Inl e
      | Inr self \<Rightarrow> set_k_function np self k_typ k_coeff0)"

text \<open>
  Calling the function stored in \<^verbatim>\<open>n_function\<close>. The local functions read
  \<^verbatim>\<open>self.n_coeff\<close> when they are called; \<^verbatim>\<open>Retro\<close> and \<^verbatim>\<open>Exotic\<close> raise whatever they are given.
\<close>

fun call_n_function ::
  "('c, 'f) numerics \<Rightarrow> ('c, 'f) container \<Rightarrow> 'f n_function \<Rightarrow> real \<Rightarrow> error + real" where
  "call_n_function np self (Interp1d_n f) w_um = interp_call np f w_um"
| "call_n_function np self (Formula Retro) w_um = Inl NotImplementedError"
| "call_n_function np self (Formula Exotic) w_um = Inl NotImplementedError"
| "call_n_function np self (Formula fm) w_um =
     (case n_coeff self of
        None \<Rightarrow> Inl AttributeError
      | Some coeff \<Rightarrow> formula_value np fm coeff w_um)"

definition get_n :: "('c, 'f) numerics \<Rightarrow> ('c, 'f) container \<Rightarrow> real \<Rightarrow> error + real" where
  "get_n np self wavelength =
     (case n_function self of
        None \<Rightarrow> Inl AttributeError
      | Some f \<Rightarrow> call_n_function np self f (0.001 * wavelength))"

text \<open>Numerical libraries for concrete runs: no table can be interpolated, every formula gives 1.\<close>

definition example_numerics :: "(real list, unit) numerics" where
  "example_numerics =
     \<lparr>interp1d = (\<lambda>c. Inl ValueError),
      interp_call = (\<lambda>f w. Inr 1),
      coeff_len = length,
      formula_value = (\<lambda>fm c w. Inr 1)\<rparr>"

section \<open>Arrays (numpy) as used by the pilot linearizer\<close>

text \<open>
  A two-dimensional array is the list of its rows; the entries are complex numbers
  (direction vectors may be complex), and numpy's floating-point arithmetic is read as
  exact arithmetic. An operation that numpy refuses for the shapes it is given raises
  \<^verbatim>\<open>ValueError\<close>.
\<close>

type_synonym cmat = "complex list list"

text \<open>Sequencing of computations that may raise.\<close>

definition and_then :: "error + 'a \<Rightarrow> ('a \<Rightarrow> error + 'b) \<Rightarrow> error + 'b" where
  "and_then r f = (case r of Inl e \<Rightarrow> Inl e | Inr v \<Rightarrow> f v)"

definition dot_rows :: "complex list \<Rightarrow> complex list \<Rightarrow> complex" where
  "dot_rows a b = sum_list (map (\<lambda>(u, v). u * v) (zip a b))"

text \<open>
  \<^verbatim>\<open>np.einsum('ij, kj', A, B)\<close>: the entry at \<open>(i, k)\<close> is the sum over \<open>j\<close> of
  \<open>A[i, j] * B[k, j]\<close> (no conjugation); the two arrays must have as many columns.
\<close>

definition einsum_ij_kj :: "cmat \<Rightarrow> cmat \<Rightarrow> error + cmat" where
  "einsum_ij_kj A B =
     (if \<forall>a \<in> set A. \<forall>b \<in> set B. length a = length b
      then Inr (map (\<lambda>a. map (\<lambda>b. dot_rows a b) B) A)
      else Inl ValueError)"

text \<open>\<^verbatim>\<open>np.dot(A, B)\<close> for two-dimensional arrays: the rows of \<open>A\<close> are as long as \<open>B\<close> has rows.\<close>

definition matmul :: "cmat \<Rightarrow> cmat \<Rightarrow> cmat" where
  "matmul A B = map (\<lambda>a. map (\<lambda>c. dot_rows a c) (transpose B)) A"

definition np_dot :: "cmat \<Rightarrow> cmat \<Rightarrow> error + cmat" where
  "np_dot A B =
     (if \<forall>a \<in> set A. length a = length B then Inr (matmul A B) else Inl ValueError)"

text \<open>\<^verbatim>\<open>np.linalg.norm\<close> of a two-dimensional array: the Frobenius norm.\<close>

definition linalg_norm :: "cmat \<Rightarrow> real" where
  "linalg_norm M = sqrt (sum_list (map (\<lambda>z. (cmod z)\<^sup>2) (concat M)))"

text \<open>
  \<^verbatim>\<open>M[4:, 4:] = np.eye(2)\<close>: the assignment needs the slice to be 2 by 2, hence \<open>M\<close> to be 6
  by 6, and overwrites the lower right block.
\<close>

definition set_lower_right_eye2 :: "cmat \<Rightarrow> error + cmat" where
  "set_lower_right_eye2 M =
     (if length M = 6 \<and> (\<forall>row \<in> set M. length row = 6)
      then Inr (take 4 M @ [take 4 (M ! 4) @ [1, 0], take 4 (M ! 5) @ [0, 1]])
      else Inl ValueError)"

text \<open>\<^verbatim>\<open>M.real\<close> and \<^verbatim>\<open>M.imag\<close>.\<close>

definition real_part :: "cmat \<Rightarrow> cmat" where
  "real_part M = map (map (\<lambda>z. complex_of_real (Re z))) M"

definition imag_part :: "cmat \<Rightarrow> cmat" where
  "imag_part M = map (map (\<lambda>z. complex_of_real (Im z))) M"

section \<open>Pilot linearizer: the least-squares fit (\<^verbatim>\<open>bestfit_transfer\<close> in \<^verbatim>\<open>calculateXYUV\<close>)\<close>

text \<open>The two warnings \<^verbatim>\<open>bestfit_transfer\<close> can log through \<^verbatim>\<open>self.warning\<close>.\<close>

datatype warning = Zero_rows_set_to_unity | XX_part_imaginary

text \<open>The array \<open>M\<close> after \<^verbatim>\<open>M[4:, 4:] = np.eye(2)\<close>, for a 6 by 6 array.\<close>

definition with_eye2 :: "cmat \<Rightarrow> cmat" where
  "with_eye2 M = take 4 M @ [take 4 (M ! 4) @ [1, 0], take 4 (M ! 5) @ [0, 1]]"

text \<open>
  The first half of \<^verbatim>\<open>bestfit_transfer\<close>: the two normal matrices as they are handed to the
  inversion, and the warnings logged on the way. \<open>tol\<close> is
  \<^verbatim>\<open>globalconstants.numerical_tolerance\<close>, which is not part of the sources.
\<close>

definition normal_matrices ::
  "real \<Rightarrow> cmat \<Rightarrow> cmat \<Rightarrow> bool \<Rightarrow> error + (cmat \<times> cmat \<times> warning list)" where
  "normal_matrices tol X Y use6x6 =
     and_then (einsum_ij_kj X X) (\<lambda>XXe.
     and_then (einsum_ij_kj X Y) (\<lambda>YXe.
       let XX = transpose XXe; YX = transpose YXe in
       if use6x6 then
         (let Ximag = drop 4 X; Yimag = drop 4 Y in
          if linalg_norm Ximag < tol \<or> linalg_norm Yimag < tol then
            and_then (set_lower_right_eye2 XX) (\<lambda>XX'.
            and_then (set_lower_right_eye2 YX) (\<lambda>YX'.
              Inr (XX', YX', [Zero_rows_set_to_unity])))
          else Inr (XX, YX, []))
       else Inr (XX, YX, [])))"

text \<open>
  \<^verbatim>\<open>bestfit_transfer(X, Y, use6x6)\<close>; \<open>linalg_inv\<close> is \<^verbatim>\<open>np.linalg.inv\<close>, which raises
  \<^verbatim>\<open>LinAlgError\<close> for a matrix it finds singular. The result is the fitted transfer matrix
  together with the warnings logged (the debug output is left out).
\<close>

definition bestfit_transfer ::
  "(cmat \<Rightarrow> error + cmat) \<Rightarrow> real \<Rightarrow> cmat \<Rightarrow> cmat \<Rightarrow> bool \<Rightarrow> error + (cmat \<times> warning list)" where
  "bestfit_transfer linalg_inv tol X Y use6x6 =
     and_then (normal_matrices tol X Y use6x6) (\<lambda>(XX, YX, ws).
     and_then (linalg_inv XX) (\<lambda>XXinv.
     and_then (np_dot YX XXinv) (\<lambda>transfer.
       Inr (transfer,
            if \<not> use6x6 \<and> linalg_norm (imag_part (map (take 2) (take 2 transfer))) > tol
            then ws @ [XX_part_imaginary] else ws))))"

section \<open>Ray bundles and coordinate frames\<close>

text \<open>
  Modelled from the spec: class \<^verbatim>\<open>RayBundle\<close> (module \<^verbatim>\<open>ray\<close>) is not part of the sources. By
  section 3 a ray bundle has a position array \<^verbatim>\<open>x\<close> and a direction array \<^verbatim>\<open>k\<close> (3 by N, one
  per trace step), electric-field data \<^verbatim>\<open>Efield\<close>, a validity mask (N booleans, here one
  mask per trace step), ray identifiers and a wavelength. The constructor takes the
  first position, direction and field (which may be \<^verbatim>\<open>None\<close>), the identifiers and the
  wavelength, and starts with every ray valid; \<^verbatim>\<open>append\<close> extends the bundle's own
  trajectory by one step. The fields \<open>bundle_x\<close> and \<open>bundle_k\<close> are \<^verbatim>\<open>x\<close> and \<^verbatim>\<open>k\<close>.
\<close>

record raybundle =
  bundle_x :: "cmat list"
  bundle_k :: "cmat list"
  Efield :: "cmat option list"
  valid :: "bool list list"
  rayID :: "nat list"
  wave :: real

text \<open>The number of columns of an array, as \<^verbatim>\<open>np.shape(m)[1]\<close> gives it.\<close>

definition num_columns :: "cmat \<Rightarrow> nat" where
  "num_columns m = (case m of [] \<Rightarrow> 0 | row # _ \<Rightarrow> length row)"

definition RayBundle :: "cmat \<Rightarrow> cmat \<Rightarrow> cmat option \<Rightarrow> nat list \<Rightarrow> real \<Rightarrow> raybundle" where
  "RayBundle x0 k0 Efield0 ids wavelength =
     \<lparr>bundle_x = [x0], bundle_k = [k0], Efield = [Efield0],
      valid = [replicate (num_columns x0) True], rayID = ids, wave = wavelength\<rparr>"

definition append_step ::
  "raybundle \<Rightarrow> cmat \<Rightarrow> cmat \<Rightarrow> cmat option \<Rightarrow> bool list \<Rightarrow> raybundle" where
  "append_step b xnew knew Enew Vnew =
     b\<lparr>bundle_x := bundle_x b @ [xnew], bundle_k := bundle_k b @ [knew],
       Efield := Efield b @ [Enew], valid := valid b @ [Vnew]\<rparr>"

text \<open>
  The coordinate frame of a surface (\<^verbatim>\<open>surface.rootcoordinatesystem\<close>), an external
  collaborator: four transformations of 3 by N arrays between the root frame and the
  local frame.
\<close>

record frame =
  returnGlobalToLocalPoints :: "cmat \<Rightarrow> cmat"
  returnGlobalToLocalDirections :: "cmat \<Rightarrow> cmat"
  returnLocalToGlobalPoints :: "cmat \<Rightarrow> cmat"
  returnLocalToGlobalDirections :: "cmat \<Rightarrow> cmat"

text \<open>
  Python's \<^verbatim>\<open>xs[-1]\<close>, \<^verbatim>\<open>xs[0]\<close> and \<^verbatim>\<open>xs[i]\<close> for an integer \<open>i\<close> (a negative \<open>i\<close> counts
  from the end of the list).
\<close>

definition py_last :: "'a list \<Rightarrow> error + 'a" where
  "py_last xs = (if xs = [] then Inl IndexError else Inr (last xs))"

definition py_first :: "'a list \<Rightarrow> error + 'a" where
  "py_first xs = (case xs of [] \<Rightarrow> Inl IndexError | y # _ \<Rightarrow> Inr y)"

definition py_index :: "'a list \<Rightarrow> int \<Rightarrow> error + 'a" where
  "py_index xs i =
     (if 0 \<le> i then
        (if nat i < length xs then Inr (xs ! nat i) else Inl IndexError)
      else
        (if nat (- i) \<le> length xs then Inr (xs ! (length xs - nat (- i)))
         else Inl IndexError))"

text \<open>
  Elementwise operations on two arrays with numpy's broadcasting: along each axis the
  two lengths agree or one of them is 1.
\<close>

definition broadcast :: "'a list \<Rightarrow> 'a list \<Rightarrow> ('a \<times> 'a) list option" where
  "broadcast a b =
     (if length a = length b then Some (zip a b)
      else if length a = 1 then Some (map (\<lambda>v. (hd a, v)) b)
      else if length b = 1 then Some (map (\<lambda>u. (u, hd b)) a)
      else None)"

definition np_binop :: "(complex \<Rightarrow> complex \<Rightarrow> complex) \<Rightarrow> cmat \<Rightarrow> cmat \<Rightarrow> error + cmat" where
  "np_binop f A B =
     (case broadcast A B of
        None \<Rightarrow> Inl ValueError
      | Some rows \<Rightarrow>
          if \<forall>(ra, rb) \<in> set rows. broadcast ra rb \<noteq> None
          then Inr (map (\<lambda>(ra, rb). map (\<lambda>(u, v). f u v) (the (broadcast ra rb))) rows)
          else Inl ValueError)"

text \<open>\<^verbatim>\<open>np.vstack\<close>: the arrays are stacked row-wise and must have as many columns.\<close>

definition np_vstack :: "cmat list \<Rightarrow> error + cmat" where
  "np_vstack Ms =
     (if \<forall>a \<in> set (concat Ms). \<forall>b \<in> set (concat Ms). length a = length b
      then Inr (concat Ms) else Inl ValueError)"

text \<open>
  \<^verbatim>\<open>m[:, 0].reshape((3, 1))\<close>: the first column, which must exist, of an array that must
  have three rows.
\<close>

definition first_column_3 :: "cmat \<Rightarrow> error + cmat" where
  "first_column_3 m =
     (if \<exists>row \<in> set m. row = [] then Inl IndexError
      else if length m \<noteq> 3 then Inl ValueError
      else Inr (map (\<lambda>row. [hd row]) m))"

section \<open>Pilot linearizer (\<^verbatim>\<open>OpticalElement.calculateXYUV\<close>)\<close>

text \<open>
  \<^verbatim>\<open>reduce_matrix_x\<close>: subtract the pilot ray (column 0) from all rays, keep the first two
  rows and drop the pilot ray's column. \<^verbatim>\<open>reduce_matrix_k\<close> is the same function, and the
  \<^verbatim>\<open>_real\<close> and \<^verbatim>\<open>_imag\<close> variants take the real and the imaginary part of it.
\<close>

definition reduce_matrix_x :: "cmat \<Rightarrow> error + cmat" where
  "reduce_matrix_x m =
     and_then (first_column_3 m) (\<lambda>pilot.
     and_then (np_binop (-) m pilot) (\<lambda>d. Inr (map tl (take 2 d))))"

definition reduce_matrix_k :: "cmat \<Rightarrow> error + cmat" where
  "reduce_matrix_k m = reduce_matrix_x m"

definition reduce_matrix_k_real :: "cmat \<Rightarrow> error + cmat" where
  "reduce_matrix_k_real m = and_then (reduce_matrix_x m) (\<lambda>d. Inr (real_part d))"

definition reduce_matrix_k_imag :: "cmat \<Rightarrow> error + cmat" where
  "reduce_matrix_k_imag m = and_then (reduce_matrix_x m) (\<lambda>d. Inr (imag_part d))"

text \<open>
  The reduced state matrix of a set of rays given by local positions and directions:
  \<^verbatim>\<open>np.vstack((xred, kred_real, kred_imag))\<close> in 6-row mode and \<^verbatim>\<open>np.vstack((xred, kred))\<close>
  otherwise. (The source computes all four reductions in either mode; the ones a mode
  does not stack fail on exactly the same arrays as the ones it does.)
\<close>

definition state_matrix :: "bool \<Rightarrow> cmat \<Rightarrow> cmat \<Rightarrow> error + cmat" where
  "state_matrix use6x6 px pk =
     and_then (reduce_matrix_x px) (\<lambda>xred.
       if use6x6 then
         and_then (reduce_matrix_k_real pk) (\<lambda>kred_real.
         and_then (reduce_matrix_k_imag pk) (\<lambda>kred_imag.
           np_vstack [xred, kred_real, kred_imag]))
       else
         and_then (reduce_matrix_k pk) (\<lambda>kred. np_vstack [xred, kred]))"

text \<open>
  The body of the loop of \<^verbatim>\<open>calculateXYUV\<close> up to the composed matrix \<^verbatim>\<open>transfer\<close> for one hit
  \<open>(s1, s2, numhit)\<close> with the pilot bundles \<open>pb1\<close> and \<open>pb2\<close>: the four sets of local
  coordinates, the three fitted stages, their product, and the comparison fit (whose
  result is not used). \<open>rcs\<close> gives the frame of a surface object. The warnings of the
  four fits are returned with the matrix.
\<close>

definition interval_transfer ::
  "('k \<rightharpoonup> 's) \<Rightarrow> ('s \<Rightarrow> frame) \<Rightarrow> (cmat \<Rightarrow> error + cmat) \<Rightarrow> real \<Rightarrow> bool \<Rightarrow>
   raybundle \<Rightarrow> raybundle \<Rightarrow> 'k \<Rightarrow> 'k \<Rightarrow> error + (cmat \<times> warning list)" where
  "interval_transfer surfs rcs linalg_inv tol use6x6 pb1 pb2 s1 s2 =
     (case surfs s1 of None \<Rightarrow> Inl KeyError | Some surf1 \<Rightarrow>
     (case surfs s2 of None \<Rightarrow> Inl KeyError | Some surf2 \<Rightarrow>
       let lcstart = rcs surf1; lcend = rcs surf2 in
       and_then (py_last (bundle_x pb1)) (\<lambda>x1.
       and_then (py_last (bundle_k pb1)) (\<lambda>k1.
       and_then (py_first (bundle_x pb2)) (\<lambda>x2first.
       and_then (py_first (bundle_k pb2)) (\<lambda>k2first.
       and_then (py_last (bundle_x pb2)) (\<lambda>x2.
       and_then (py_last (bundle_k pb2)) (\<lambda>k2.
       and_then (state_matrix use6x6 (returnGlobalToLocalPoints lcstart x1)
                   (returnGlobalToLocalDirections lcstart k1)) (\<lambda>startmatrix.
       and_then (state_matrix use6x6 (returnGlobalToLocalPoints lcstart x2first)
                   (returnGlobalToLocalDirections lcstart k2first)) (\<lambda>fspropmatrix.
       and_then (state_matrix use6x6 (returnGlobalToLocalPoints lcstart x2)
                   (returnGlobalToLocalDirections lcstart k2)) (\<lambda>endmatrix_lcstart.
       and_then (state_matrix use6x6 (returnGlobalToLocalPoints lcend x2)
                   (returnGlobalToLocalDirections lcend k2)) (\<lambda>endmatrix.
       and_then (bestfit_transfer linalg_inv tol startmatrix fspropmatrix use6x6)
         (\<lambda>(refractmatrix, ws1).
       and_then (bestfit_transfer linalg_inv tol fspropmatrix endmatrix_lcstart use6x6)
         (\<lambda>(propagatematrix, ws2).
       and_then (bestfit_transfer linalg_inv tol endmatrix_lcstart endmatrix use6x6)
         (\<lambda>(coordinatetrafomatrix, ws3).
       and_then (np_dot propagatematrix refractmatrix) (\<lambda>pr.
       and_then (np_dot coordinatetrafomatrix pr) (\<lambda>transfer.
       and_then (bestfit_transfer linalg_inv tol startmatrix endmatrix use6x6)
         (\<lambda>(transfer_comparison, ws4).
         Inr (transfer, ws1 @ ws2 @ ws3 @ ws4)))))))))))))))))))"

text \<open>
  The loop \<^verbatim>\<open>for (pb1, pb2, surfhit) in zip(startpilotbundle, endpilotbundle, hitlist)\<close> with
  the dictionary \<^verbatim>\<open>XYUVmatrices\<close> and the warnings logged so far: each hit stores its
  transfer matrix under its own triple and the inverse under the triple with the two
  surface keys exchanged.
\<close>

fun xyuv_loop ::
  "('k \<rightharpoonup> 's) \<Rightarrow> ('s \<Rightarrow> frame) \<Rightarrow> (cmat \<Rightarrow> error + cmat) \<Rightarrow> real \<Rightarrow> bool \<Rightarrow>
   ('k hit \<rightharpoonup> cmat) \<times> warning list \<Rightarrow> (raybundle \<times> raybundle \<times> 'k hit) list \<Rightarrow>
   error + (('k hit \<rightharpoonup> cmat) \<times> warning list)" where
  "xyuv_loop surfs rcs linalg_inv tol use6x6 (XYUVmatrices, ws) [] = Inr (XYUVmatrices, ws)"
| "xyuv_loop surfs rcs linalg_inv tol use6x6 (XYUVmatrices, ws)
     ((pb1, pb2, (s1, s2, numhit)) # rest) =
     and_then (interval_transfer surfs rcs linalg_inv tol use6x6 pb1 pb2 s1 s2)
       (\<lambda>(transfer, ws').
     and_then (linalg_inv transfer) (\<lambda>inverse.
       xyuv_loop surfs rcs linalg_inv tol use6x6
         (XYUVmatrices((s1, s2, numhit) \<mapsto> transfer, (s2, s1, numhit) \<mapsto> inverse), ws @ ws')
         rest))"

text \<open>
  \<^verbatim>\<open>calculateXYUV\<close>. The pilot bundle is traced with \<^verbatim>\<open>splitup=True\<close>, one of the resulting
  paths is selected by index, and the loop runs over its consecutive bundles zipped with
  the hitlist. The result is the selected pilot path (as bundle contents), the table,
  and the warnings logged.
\<close>

definition calculateXYUV ::
  "('k, 'mk, 's) optical_element \<Rightarrow> (mref \<Rightarrow> (raybundle, 's) material) \<Rightarrow> ('s \<Rightarrow> frame) \<Rightarrow>
   (cmat \<Rightarrow> error + cmat) \<Rightarrow> real \<Rightarrow>
   raybundle \<Rightarrow> ('k \<times> options_dict) list \<Rightarrow> mref \<Rightarrow> int \<Rightarrow> bool \<Rightarrow>
   error + (raybundle list \<times> ('k hit \<rightharpoonup> cmat) \<times> warning list)" where
  "calculateXYUV el objs rcs linalg_inv tol pilotinitbundle sequence background_medium
     pilotraypath_nr use6x6 =
     (let (hitlist, optionshitlistdict) = sequence_to_hitlist sequence in
      and_then (seqtrace el objs pilotinitbundle sequence background_medium True) (\<lambda>st.
      and_then (py_index (path_values st) pilotraypath_nr) (\<lambda>pilotraypath.
        let startpilotbundle = butlast pilotraypath;
            endpilotbundle = tl pilotraypath
        in and_then
             (xyuv_loop (surfaces el) rcs linalg_inv tol use6x6 (Map.empty, [])
                (zip startpilotbundle (zip endpilotbundle hitlist)))
             (\<lambda>(XYUVmatrices, ws). Inr (pilotraypath, XYUVmatrices, ws)))))"

section \<open>Differential propagator (\<^verbatim>\<open>OpticalElement.para_seqtrace\<close>)\<close>

text \<open>
  The reduced difference state \<^verbatim>\<open>DX0\<close> of the rays (local coordinates \<open>x0\<close>, \<open>k0\<close>) against
  the pilot ray (local coordinates \<open>px0\<close>, \<open>pk0\<close>, one column each).
\<close>

definition difference_state :: "bool \<Rightarrow> cmat \<Rightarrow> cmat \<Rightarrow> cmat \<Rightarrow> cmat \<Rightarrow> error + cmat" where
  "difference_state use6x6 x0 px0 k0 pk0 =
     and_then (np_binop (-) x0 px0) (\<lambda>dx.
       let dx0 = take 2 dx in
       and_then (np_binop (-) k0 pk0) (\<lambda>dk.
         if use6x6 then
           (let dk0_real = real_part (take 2 dk); dk0_imag = imag_part (take 2 dk)
            in np_vstack [dx0, dk0_real, dk0_imag])
         else (let dk0 = take 2 dk in np_vstack [dx0, dk0])))"

text \<open>
  \<^verbatim>\<open>b.x[-1][:, 0].reshape((3, 1))\<close> (or the same with \<^verbatim>\<open>k\<close>): the pilot ray's column of the
  latest step of a pilot bundle.
\<close>

definition pilot_column :: "cmat list \<Rightarrow> error + cmat" where
  "pilot_column history = and_then (py_last history) first_column_3"

text \<open>
  From \<^verbatim>\<open>DX1 = np.dot(matrices[surfhit], DX0)\<close> to the two \<^verbatim>\<open>np.vstack\<close> calls that pad with
  \<^verbatim>\<open>np.zeros(num_pts)\<close>: the output difference state is split into position and direction
  (the direction recombined from real and imaginary part in 6-row mode), and each gets a
  row of zeros appended. The result is the padded position difference, the padded
  direction difference and \<^verbatim>\<open>num_pts\<close>.
\<close>

definition propagate_difference :: "bool \<Rightarrow> cmat \<Rightarrow> cmat \<Rightarrow> error + (cmat \<times> cmat \<times> nat)" where
  "propagate_difference use6x6 M DX0 =
     and_then (np_dot M DX0) (\<lambda>DX1.
     and_then (if use6x6
               then np_binop (+) (take 2 (drop 2 DX1))
                      (map (map (\<lambda>z. \<i> * z)) (take 2 (drop 4 DX1)))
               else Inr (take 2 (drop 2 DX1))) (\<lambda>dk1.
       let dx1 = take 2 DX1; num_pts = num_columns dx1 in
       and_then (np_vstack [dx1, [replicate num_pts 0]]) (\<lambda>dx1.
       and_then (np_vstack [dk1, [replicate num_pts 0]]) (\<lambda>dk1.
         Inr (dx1, dk1, num_pts)))))"

text \<open>
  The body of the loop of \<^verbatim>\<open>para_seqtrace\<close> for the pilot bundles \<open>ps\<close> and \<open>pe\<close> around one
  hit: the ray path \<^verbatim>\<open>rpath\<close> (here the list of its bundles; every bundle appended is a new
  object) gets one more bundle.
\<close>

definition para_step ::
  "('k \<rightharpoonup> 's) \<Rightarrow> ('s \<Rightarrow> frame) \<Rightarrow> bool \<Rightarrow> ('k hit \<rightharpoonup> cmat) \<Rightarrow> raybundle list \<Rightarrow>
   raybundle \<times> raybundle \<times> 'k hit \<Rightarrow> error + raybundle list" where
  "para_step surfs rcs use6x6 matrices rpath entry =
     (case entry of (ps, pe, surfhit) \<Rightarrow>
     (case surfhit of (surf_start_key, surf_end_key, hit) \<Rightarrow>
     (case surfs surf_start_key of None \<Rightarrow> Inl KeyError | Some surf_start \<Rightarrow>
     (case surfs surf_end_key of None \<Rightarrow> Inl KeyError | Some surf_end \<Rightarrow>
       and_then (py_last rpath) (\<lambda>current.
       and_then (py_last (bundle_x current)) (\<lambda>x0_glob.
       and_then (py_last (bundle_k current)) (\<lambda>k0_glob.
         let newbundle = RayBundle x0_glob k0_glob None (rayID current) (wave current);
             x0 = returnGlobalToLocalPoints (rcs surf_start) x0_glob;
             k0 = returnGlobalToLocalDirections (rcs surf_start) k0_glob
         in
       and_then (pilot_column (bundle_x ps)) (\<lambda>psx.
       and_then (pilot_column (bundle_k ps)) (\<lambda>psk.
       and_then (pilot_column (bundle_x pe)) (\<lambda>pex.
       and_then (pilot_column (bundle_k pe)) (\<lambda>pek.
         let px0 = returnGlobalToLocalPoints (rcs surf_start) psx;
             pk0 = returnGlobalToLocalDirections (rcs surf_start) psk;
             px1 = returnGlobalToLocalPoints (rcs surf_end) pex;
             pk1 = returnGlobalToLocalDirections (rcs surf_end) pek
         in
       and_then (difference_state use6x6 x0 px0 k0 pk0) (\<lambda>DX0.
       (case matrices surfhit of None \<Rightarrow> Inl KeyError | Some M \<Rightarrow>
       and_then (propagate_difference use6x6 M DX0) (\<lambda>(dx1, dk1, num_pts).
       and_then (np_binop (+) dx1 px1) (\<lambda>sx.
       and_then (np_binop (+) dk1 pk1) (\<lambda>sk.
         let x1 = returnLocalToGlobalPoints (rcs surf_end) sx;
             k1 = returnLocalToGlobalDirections (rcs surf_end) sk
         in
       and_then (py_first (Efield newbundle)) (\<lambda>E0.
         Inr (rpath @ [append_step newbundle x1 k1 E0 (replicate num_pts True)])
       )))))))))))))))))"

fun para_loop ::
  "('k \<rightharpoonup> 's) \<Rightarrow> ('s \<Rightarrow> frame) \<Rightarrow> bool \<Rightarrow> ('k hit \<rightharpoonup> cmat) \<Rightarrow> raybundle list \<Rightarrow>
   (raybundle \<times> raybundle \<times> 'k hit) list \<Rightarrow> error + raybundle list" where
  "para_loop surfs rcs use6x6 matrices rpath [] = Inr rpath"
| "para_loop surfs rcs use6x6 matrices rpath (entry # rest) =
     and_then (para_step surfs rcs use6x6 matrices rpath entry) (\<lambda>rpath'.
       para_loop surfs rcs use6x6 matrices rpath' rest)"

definition para_seqtrace ::
  "('k, 'mk, 's) optical_element \<Rightarrow> (mref \<Rightarrow> (raybundle, 's) material) \<Rightarrow> ('s \<Rightarrow> frame) \<Rightarrow>
   (cmat \<Rightarrow> error + cmat) \<Rightarrow> real \<Rightarrow>
   raybundle \<Rightarrow> raybundle \<Rightarrow> ('k \<times> options_dict) list \<Rightarrow> mref \<Rightarrow> int \<Rightarrow> bool \<Rightarrow>
   error + (raybundle list \<times> raybundle list)" where
  "para_seqtrace el objs rcs linalg_inv tol pilotbundle raybundle sequence background_medium
     pilotraypath_nr use6x6 =
     (let rpath = [raybundle] in
      and_then (calculateXYUV el objs rcs linalg_inv tol pilotbundle sequence
                  background_medium pilotraypath_nr use6x6)
        (\<lambda>(pilotraypath, matrices, ws).
      let (hitlist, optionshitlistdict) = sequence_to_hitlist sequence in
      and_then (para_loop (surfaces el) rcs use6x6 matrices rpath
                  (zip (butlast pilotraypath) (zip (tl pilotraypath) hitlist)))
        (\<lambda>rpath'. Inr (pilotraypath, rpath'))))"

text \<open>
  An inverse for concrete runs: exact on diagonal matrices with a nonzero diagonal, and
  \<^verbatim>\<open>LinAlgError\<close> on every other matrix (among them all singular diagonal matrices).
\<close>

definition is_diagonal :: "cmat \<Rightarrow> bool" where
  "is_diagonal M \<longleftrightarrow>
     list_all (\<lambda>(i, row). length row = length M \<and>
                 list_all (\<lambda>(j, z). i = j \<or> z = 0) (enumerate 0 row))
       (enumerate 0 M)"

definition diag_inv :: "cmat \<Rightarrow> error + cmat" where
  "diag_inv M =
     (if is_diagonal M \<and> list_all (\<lambda>(i, row). row ! i \<noteq> 0) (enumerate 0 M)
      then Inr (map (\<lambda>(i, row). map (\<lambda>(j, z). if i = j then 1 / z else 0) (enumerate 0 row))
                  (enumerate 0 M))
      else Inl LinAlgError)"

section \<open>A pilot bundle and a material for concrete runs of the linearizer\<close>

text \<open>
  Every surface has the root frame as its frame. The material stretches the transverse
  positions by 2 on the way to the next surface and leaves positions and directions as
  they are at a surface. The pilot bundle has the chief ray on the axis and four rays
  that differ from it by 1 in one of the four transverse state components.
\<close>

definition identity_frame :: frame where
  "identity_frame =
     \<lparr>returnGlobalToLocalPoints = (\<lambda>m. m), returnGlobalToLocalDirections = (\<lambda>m. m),
      returnLocalToGlobalPoints = (\<lambda>m. m), returnLocalToGlobalDirections = (\<lambda>m. m)\<rparr>"

definition example_rcs :: "unit \<Rightarrow> frame" where
  "example_rcs surface = identity_frame"

definition magnify :: "cmat \<Rightarrow> cmat" where
  "magnify m = map (map (\<lambda>z. 2 * z)) (take 2 m) @ drop 2 m"

definition pilot_material :: "(raybundle, unit) material" where
  "pilot_material =
     \<lparr>propagate = (\<lambda>b s. append_step b (magnify (last (bundle_x b))) (last (bundle_k b))
                       (last (Efield b)) (last (valid b))),
      refract = (\<lambda>b s splitup. [RayBundle (last (bundle_x b)) (last (bundle_k b))
                       (last (Efield b)) (rayID b) (wave b)]),
      reflect = (\<lambda>b s splitup. [RayBundle (last (bundle_x b)) (last (bundle_k b))
                       (last (Efield b)) (rayID b) (wave b)])\<rparr>"

definition pilot_objs :: "mref \<Rightarrow> (raybundle, unit) material" where
  "pilot_objs m = pilot_material"

definition example_pilotbundle :: raybundle where
  "example_pilotbundle =
     RayBundle [[0, 1, 0, 0, 0], [0, 0, 1, 0, 0], [0, 0, 0, 0, 0]]
               [[0, 0, 0, 1, 0], [0, 0, 0, 0, 1], [1, 1, 1, 1, 1]]
               None [0, 1, 2, 3, 4] 1"

text \<open>The sequence s1, s2 (a mirror), s1: from the first surface to the mirror and back.\<close>

definition there_and_back :: "(string \<times> options_dict) list" where
  "there_and_back =
     [(''s1'', Map.empty), (''s2'', [''is_mirror'' \<mapsto> PyBool True]), (''s1'', Map.empty)]"

text \<open>Names for the arrays that occur in runs with this bundle.\<close>

definition state_diag :: "complex \<Rightarrow> cmat" where
  "state_diag a = [[a, 0, 0, 0], [0, a, 0, 0], [0, 0, 1, 0], [0, 0, 0, 1]]"

definition pilot_x :: "complex \<Rightarrow> cmat" where
  "pilot_x a = [[0, a, 0, 0, 0], [0, 0, a, 0, 0], [0, 0, 0, 0, 0]]"

definition pilot_k :: cmat where
  "pilot_k = [[0, 0, 0, 1, 0], [0, 0, 0, 0, 1], [1, 1, 1, 1, 1]]"

definition pilot_at :: "cmat list \<Rightarrow> raybundle" where
  "pilot_at xs =
     \<lparr>bundle_x = xs, bundle_k = map (\<lambda>_. pilot_k) xs, Efield = map (\<lambda>_. None) xs,
      valid = map (\<lambda>_. [True, True, True, True, True]) xs, rayID = [0, 1, 2, 3, 4], wave = 1\<rparr>"

section \<open>Properties of the hitlist codec\<close>

lemma hitlist_loop_length:
  "length (fst (hitlist_loop d hl od ps)) = length hl + length ps"
proof (induction ps arbitrary: d hl od)
  case Nil
  show ?case by simp
next
  case (Cons p ps)
  obtain sb optsb se optse where p: "p = ((sb, optsb), (se, optse))"
    by (metis surj_pair)
  show ?case unfolding p by (simp add: Let_def Cons.IH)
qed

lemma hits_of_append: "hits_of a b (xs @ ys) = hits_of a b xs @ hits_of a b ys"
  by (simp add: hits_of_def)

lemma hits_of_Nil: "hits_of a b [] = []"
  by (simp add: hits_of_def)

lemma hits_of_single: "hits_of a b [(sb, se, h)] = (if sb = a \<and> se = b then [h] else [])"
  by (simp add: hits_of_def)

lemma pair_count_Nil: "pair_count a b [] = 0"
  by (simp add: pair_count_def)

lemma pair_count_Cons:
  "pair_count a b (((sb, optsb), (se, optse)) # ps) =
     (if sb = a \<and> se = b then Suc (pair_count a b ps) else pair_count a b ps)"
  by (simp add: pair_count_def)

text \<open>
  The loop invariant: the counter stored for a pair is the number of its occurrences so
  far, so the hits the rest of the loop emits for the pair continue from it.
\<close>

lemma hitlist_loop_hits:
  "hits_of a b (fst (hitlist_loop d hl od ps)) =
     hits_of a b hl @
     [(case d (a, b) of None \<Rightarrow> 0 | Some h \<Rightarrow> h) + 1 ..
      (case d (a, b) of None \<Rightarrow> 0 | Some h \<Rightarrow> h) + int (pair_count a b ps)]"
proof (induction ps arbitrary: d hl od)
  case Nil
  show ?case by (simp add: pair_count_Nil)
next
  case (Cons p ps)
  obtain sb optsb se optse where p: "p = ((sb, optsb), (se, optse))"
    by (metis surj_pair)
  define c where "c = (case d (a, b) of None \<Rightarrow> 0 | Some h \<Rightarrow> h)"
  define c' where "c' = (case d (sb, se) of None \<Rightarrow> 0 | Some h \<Rightarrow> h)"
  define n where "n = pair_count a b ps"
  have step: "hitlist_loop d hl od (p # ps) =
      hitlist_loop (d((sb, se) \<mapsto> c' + 1)) (hl @ [(sb, se, c' + 1)])
        (od((sb, se, c' + 1) \<mapsto> (optsb, optse))) ps"
    unfolding p c'_def by (simp add: Let_def)
  show ?case
  proof (cases "sb = a \<and> se = b")
    case True
    then have cc: "c' = c" by (simp add: c_def c'_def)
    have up: "[c + 1..c + int (Suc n)] = (c + 1) # [c + 1 + 1 .. c + 1 + int n]"
      by (subst upto_rec1) (simp_all add: ac_simps)
    have "hits_of a b (fst (hitlist_loop d hl od (p # ps))) =
          (hits_of a b hl @ [c + 1]) @ [c + 1 + 1 .. c + 1 + int n]"
      unfolding step Cons.IH using True
      by (simp add: hits_of_append hits_of_single cc n_def)
    also have "\<dots> = hits_of a b hl @ [c + 1..c + int (Suc n)]"
      by (simp only: up append_assoc append_Cons append_Nil)
    also have "Suc n = pair_count a b (p # ps)"
      unfolding p using True by (simp add: pair_count_Cons n_def)
    finally show ?thesis unfolding c_def .
  next
    case False
    then have ne: "(a, b) \<noteq> (sb, se)" by auto
    have "hits_of a b (fst (hitlist_loop d hl od (p # ps))) =
          hits_of a b hl @ [c + 1 .. c + int n]"
      unfolding step Cons.IH using False ne
      by (auto simp add: hits_of_append hits_of_single c_def n_def)
    also have "n = pair_count a b (p # ps)"
      unfolding p using False by (auto simp add: pair_count_Cons n_def)
    finally show ?thesis unfolding c_def .
  qed
qed

lemma hits_of_length:
  "length (hits_of a b (fst (hitlist_loop Map.empty [] od ps))) = pair_count a b ps"
  by (simp add: hitlist_loop_hits hits_of_Nil)

text \<open>
  Claim C4. For a sequence of length at least 1, \<^verbatim>\<open>sequence_to_hitlist\<close> returns a hitlist with
  one triple less than the sequence has entries, and for every ordered pair of surface
  keys the hit indices of that pair's triples, read in hitlist order, are 1, 2, 3, ... up
  to the number of those triples.
\<close>

theorem sequence_to_hitlist_shape:
  assumes "1 \<le> length s"
  shows "int (length (fst (sequence_to_hitlist s))) = int (length s) - 1 \<and>
         (\<forall>a b. hits_of a b (fst (sequence_to_hitlist s)) =
                 [1 .. int (length (hits_of a b (fst (sequence_to_hitlist s))))])"
proof
  show "int (length (fst (sequence_to_hitlist s))) = int (length s) - 1"
    using assms by (simp add: sequence_to_hitlist_def hitlist_loop_length)
next
  show "\<forall>a b. hits_of a b (fst (sequence_to_hitlist s)) =
                 [1 .. int (length (hits_of a b (fst (sequence_to_hitlist s))))]"
    unfolding sequence_to_hitlist_def Let_def hits_of_length
    by (simp add: hitlist_loop_hits hits_of_Nil)
qed

text \<open>
  The sequence s1, s2, s1, s2 has the hitlist (s1, s2, 1), (s2, s1, 1), (s1, s2, 2).
\<close>

theorem sequence_to_hitlist_shape_witness:
  "fst (sequence_to_hitlist [(''s1'', ()), (''s2'', ()), (''s1'', ()), (''s2'', ())]) =
     [(''s1'', ''s2'', 1), (''s2'', ''s1'', 1), (''s1'', ''s2'', 2)] \<and>
   hits_of ''s1'' ''s2''
     (fst (sequence_to_hitlist [(''s1'', ()), (''s2'', ()), (''s1'', ()), (''s2'', ())])) = [1, 2]"
  using sequence_to_hitlist_shape [of "[(''s1'', ()), (''s2'', ()), (''s1'', ()), (''s2'', ())]"]
  by (simp add: sequence_to_hitlist_def hits_of_def)

section \<open>Properties of the sequential tracer\<close>

subsection \<open>The two inner loops\<close>

lemma propagate_all_ok:
  assumes "\<forall>rp \<in> set rps. rp \<noteq> []"
  shows "\<exists>h'. propagate_all prop m rps (h, cs) =
            Inr (h', cs @ map (\<lambda>rp. Propagate m (last rp)) rps) \<and> length h' = length h"
  using assms
proof (induction rps arbitrary: h cs)
  case Nil
  show ?case by simp
next
  case (Cons rp rps)
  from Cons.prems have ne: "rp \<noteq> []" and rest: "\<forall>rp \<in> set rps. rp \<noteq> []" by auto
  from Cons.IH [OF rest, of "h[last rp := prop (h ! last rp)]" "cs @ [Propagate m (last rp)]"]
  show ?case using ne by (auto simp add: Let_def)
qed

lemma propagate_all_calls:
  "propagate_all prop m rps (h, cs) = Inr (h', cs') \<Longrightarrow>
     cs' = cs @ map (\<lambda>rp. Propagate m (last rp)) rps \<and> (\<forall>rp \<in> set rps. rp \<noteq> [])"
proof (induction rps arbitrary: h cs)
  case Nil
  then show ?case by simp
next
  case (Cons rp rps)
  from Cons.prems have ne: "rp \<noteq> []" by (auto split: if_splits)
  with Cons.prems have
    "propagate_all prop m rps (h[last rp := prop (h ! last rp)], cs @ [Propagate m (last rp)]) =
       Inr (h', cs')"
    by (simp add: Let_def)
  from Cons.IH [OF this] ne show ?case by simp
qed

lemma interact_all_calls:
  "interact_all interact ev rps (h, cs) = Inr (h2, cs2, rps', news) \<Longrightarrow>
     cs2 = cs @ map (\<lambda>rp. ev (last rp)) rps \<and> length rps' = length rps"
proof (induction rps arbitrary: h cs h2 cs2 rps' news)
  case Nil
  then show ?case by simp
next
  case (Cons rp rps)
  from Cons.prems obtain h1 rp' new h3 cs3 rps3 news3 where
    a: "interact_path interact h rp = Inr (h1, rp', new)" and
    b: "interact_all interact ev rps (h1, cs @ [ev (last rp)]) = Inr (h3, cs3, rps3, news3)" and
    c: "h2 = h3" "cs2 = cs3" "rps' = rp' # rps3" "news = new @ news3"
    by (auto split: sum.splits prod.splits)
  from Cons.IH [OF b] c show ?case by simp
qed

text \<open>What a successful iteration of the loop over the sequence has done.\<close>

lemma seqtrace_step_Inr:
  assumes "seqtrace_step el objs bg splitup st (surfkey, surfoptions) = Inr st'"
  obtains current_surface mnkey pnkey hc h cs rps rpaths_new where
    "surfaces el surfkey = Some current_surface"
    "surf_mat_connection el surfkey = Some (mnkey, pnkey)"
    "propagate_all (\<lambda>b. propagate (objs (current_material st)) b current_surface)
       (current_material st) (rpaths st) (heap st, calls st) = Inr hc"
    "current_material st' =
       (if refract_flag surfoptions
        then findoutWhichMaterial (material_or_background (materials el) mnkey bg)
               (material_or_background (materials el) pnkey bg) (current_material st)
        else current_material st)"
    "interact_all
       (\<lambda>b. (if refract_flag surfoptions then refract else reflect)
               (objs (current_material st')) b current_surface splitup)
       ((if refract_flag surfoptions then Refract else Reflect) (current_material st'))
       (rpaths st) hc = Inr (h, cs, rps, rpaths_new)"
    "heap st' = h" "calls st' = cs" "rpaths st' = rps @ rpaths_new"
  using assms unfolding seqtrace_step_def
  by (auto simp add: Let_def split: option.splits sum.splits prod.splits if_splits)

subsection \<open>Tracing without branching\<close>

lemma interact_path_single:
  assumes "rp \<noteq> []" "length (interact (h ! last rp)) = 1"
  shows "interact_path interact h rp =
           Inr (h @ interact (h ! last rp), rp @ [length h], [])"
proof -
  from assms(2) obtain b where b: "interact (h ! last rp) = [b]"
    by (cases "interact (h ! last rp)") auto
  show ?thesis
    using assms(1) by (simp add: interact_path_def Let_def appendRayBundle_def b)
qed

lemma seqtrace_step_single:
  assumes p: "rpaths st = [p]" "p \<noteq> []"
    and key: "surfkey \<in> dom (surfaces el)" "surfkey \<in> dom (surf_mat_connection el)"
    and flag: "refract_flag surfoptions"
    and one: "\<forall>m b s. length (refract (objs m) b s splitup) = 1"
  shows "\<exists>st' r. seqtrace_step el objs bg splitup st (surfkey, surfoptions) = Inr st' \<and>
           rpaths st' = [p @ [r]]"
proof -
  from key obtain current_surface mnkey pnkey where
    s: "surfaces el surfkey = Some current_surface" and
    c: "surf_mat_connection el surfkey = Some (mnkey, pnkey)"
    by auto
  define cur where "cur = current_material st"
  have "\<forall>rp \<in> set (rpaths st). rp \<noteq> []" using p by simp
  from propagate_all_ok [OF this, of "\<lambda>b. propagate (objs cur) b current_surface" cur
      "heap st" "calls st"]
  obtain h' cs' where
    pr: "propagate_all (\<lambda>b. propagate (objs cur) b current_surface) cur (rpaths st)
           (heap st, calls st) = Inr (h', cs')"
    by blast
  define cur' where "cur' = findoutWhichMaterial (material_or_background (materials el) mnkey bg)
     (material_or_background (materials el) pnkey bg) cur"
  have ip: "interact_path (\<lambda>b. refract (objs cur') b current_surface splitup) h' p =
      Inr (h' @ refract (objs cur') (h' ! last p) current_surface splitup, p @ [length h'], [])"
    by (rule interact_path_single) (use p one in simp_all)
  show ?thesis
    unfolding seqtrace_step_def
    using s c flag pr ip p
    by (simp add: Let_def cur_def[symmetric] cur'_def[symmetric])
qed

lemma seqtrace_loop_single:
  assumes "rpaths st = [p]" "p \<noteq> []"
    and "\<forall>(surfkey, surfoptions) \<in> set sequence.
           surfkey \<in> dom (surfaces el) \<and> surfkey \<in> dom (surf_mat_connection el) \<and>
           refract_flag surfoptions"
    and "\<forall>m b s. length (refract (objs m) b s splitup) = 1"
  shows "\<exists>st' p'. seqtrace_loop el objs bg splitup st sequence = Inr st' \<and>
           rpaths st' = [p'] \<and> length p' = length p + length sequence"
  using assms
proof (induction sequence arbitrary: st p)
  case Nil
  then show ?case by simp
next
  case (Cons entry sequence)
  obtain surfkey surfoptions where e: "entry = (surfkey, surfoptions)" by (cases entry)
  from Cons.prems(3) e have
    key: "surfkey \<in> dom (surfaces el)" "surfkey \<in> dom (surf_mat_connection el)" and
    flag: "refract_flag surfoptions" and
    rest: "\<forall>(surfkey, surfoptions) \<in> set sequence.
           surfkey \<in> dom (surfaces el) \<and> surfkey \<in> dom (surf_mat_connection el) \<and>
           refract_flag surfoptions"
    by auto
  from seqtrace_step_single [OF Cons.prems(1,2) key flag Cons.prems(4)]
  obtain st1 r where
    st1: "seqtrace_step el objs bg splitup st (surfkey, surfoptions) = Inr st1"
      "rpaths st1 = [p @ [r]]"
    by blast
  from Cons.IH [OF st1(2) _ rest Cons.prems(4)]
  obtain st' p' where "seqtrace_loop el objs bg splitup st1 sequence = Inr st'"
     "rpaths st' = [p']" "length p' = length (p @ [r]) + length sequence"
    by auto
  then show ?case using st1 e by simp
qed

text \<open>
  Claim C1, as stated, fails: the claim speaks of every sequence of non-mirror entries,
  but a sequence that names a surface the element does not have makes \<^verbatim>\<open>seqtrace\<close> raise
  \<^verbatim>\<open>KeyError\<close> at \<^verbatim>\<open>self.__surfaces[surfkey]\<close> before any bundle is refracted. Here the
  options are empty (so the entry is no mirror), the material returns one bundle when not
  splitting, and the surface key s9 is not a surface of the element.
\<close>

theorem seqtrace_unknown_surface_counterexample:
  "refract_flag Map.empty \<and>
   refract (example_objs 0) [7] () False = [[1]] \<and>
   seqtrace example_element example_objs [7] [(''s9'', Map.empty)] 0 False = Inl KeyError"
  by (simp add: seqtrace_def seqtrace_init_def seqtrace_step_def example_element_def
      example_objs_def example_material_def refract_flag_def)

text \<open>
  Claim C1, amended: for every input bundle, every background medium and every sequence of
  K entries that are all non-mirror and all name a surface of the element, if every
  \<^verbatim>\<open>refract\<close> call with \<^verbatim>\<open>splitup=False\<close> returns exactly one bundle, then \<^verbatim>\<open>seqtrace\<close> with
  \<^verbatim>\<open>splitup=False\<close> returns a list of exactly one ray path, and that path has exactly K + 1
  bundles.
\<close>

theorem seqtrace_single_path:
  assumes "\<forall>(surfkey, surfoptions) \<in> set sequence.
             surfkey \<in> dom (surfaces el) \<and> surfkey \<in> dom (surf_mat_connection el) \<and>
             refract_flag surfoptions"
    and "\<forall>m b s. length (refract (objs m) b s False) = 1"
  shows "\<exists>st p. seqtrace el objs raybundle sequence background_medium False = Inr st \<and>
           rpaths st = [p] \<and> length p = length sequence + 1"
proof -
  have "rpaths (seqtrace_init raybundle background_medium) = [[0]]"
    by (simp add: seqtrace_init_def RayPath_def)
  from seqtrace_loop_single [OF this _ assms]
  show ?thesis unfolding seqtrace_def by auto
qed

text \<open>
  Tracing the example element through its two surfaces without splitting gives one path
  of three bundles.
\<close>

theorem seqtrace_single_path_witness:
  "rpaths (projr (seqtrace example_element example_objs [7]
      [(''s1'', Map.empty), (''s2'', Map.empty)] 0 False)) = [[0, 1, 2]] \<and>
   path_values (projr (seqtrace example_element example_objs [7]
      [(''s1'', Map.empty), (''s2'', Map.empty)] 0 False)) = [[[7, 0], [1, 0], [1]]]"
  using seqtrace_single_path [of "[(''s1'', Map.empty), (''s2'', Map.empty)]" example_element
      example_objs "[7]" 0]
  by (simp add: seqtrace_def seqtrace_init_def seqtrace_step_def example_element_def
      example_objs_def example_material_def refract_flag_def material_or_background_def
      findoutWhichMaterial_def interact_path_def RayPath_def appendRayBundle_def Let_def
      path_values_def deref_def upt_rec)

subsection \<open>The current material\<close>

text \<open>
  Claim C3. At a non-mirror sequence entry that \<^verbatim>\<open>seqtrace\<close> gets through, the new current
  material is chosen from the two materials adjacent to the surface by comparing object
  identities: the second one if the first is the current material, otherwise the first;
  in particular the first one when the current material is neither of the two.
\<close>

theorem seqtrace_step_material_choice:
  assumes "seqtrace_step el objs bg splitup st (surfkey, surfoptions) = Inr st'"
    and "refract_flag surfoptions"
    and "surf_mat_connection el surfkey = Some (mnkey, pnkey)"
    and "mnmat = material_or_background (materials el) mnkey bg"
    and "pnmat = material_or_background (materials el) pnkey bg"
  shows "current_material st' = findoutWhichMaterial mnmat pnmat (current_material st) \<and>
         current_material st' = (if mnmat = current_material st then pnmat else mnmat) \<and>
         (current_material st \<noteq> mnmat \<and> current_material st \<noteq> pnmat \<longrightarrow>
            current_material st' = mnmat)"
proof -
  from assms(1) obtain mnkey' pnkey' where
    "surf_mat_connection el surfkey = Some (mnkey', pnkey')"
    "current_material st' =
       (if refract_flag surfoptions
        then findoutWhichMaterial (material_or_background (materials el) mnkey' bg)
               (material_or_background (materials el) pnkey' bg) (current_material st)
        else current_material st)"
    by (rule seqtrace_step_Inr)
  with assms(2-5) have "current_material st' = findoutWhichMaterial mnmat pnmat (current_material st)"
    by simp
  then show ?thesis by (auto simp add: findoutWhichMaterial_def)
qed

text \<open>
  Entering the example element from the background medium (object 0) at the surface
  between glass (object 1) and oil (object 2): the current material is neither, and the
  first listed material, glass, is selected.
\<close>

theorem seqtrace_step_material_choice_witness:
  "current_material (seqtrace_init [7::nat] 0) = 0 \<and>
   material_or_background (materials example_element) ''glass'' 0 = 1 \<and>
   material_or_background (materials example_element) ''oil'' 0 = 2 \<and>
   current_material (projr (seqtrace_step example_element example_objs 0 False
      (seqtrace_init [7] 0) (''s3'', Map.empty))) = 1"
proof -
  have step: "seqtrace_step example_element example_objs 0 False (seqtrace_init [7] 0)
      (''s3'', Map.empty) =
    Inr (projr (seqtrace_step example_element example_objs 0 False (seqtrace_init [7] 0)
      (''s3'', Map.empty)))"
    by code_simp
  have flag: "refract_flag Map.empty" by code_simp
  have conn: "surf_mat_connection example_element ''s3'' = Some (''glass'', ''oil'')"
    by code_simp
  have mn: "material_or_background (materials example_element) ''glass'' 0 = 1"
    by code_simp
  have pn: "material_or_background (materials example_element) ''oil'' 0 = 2"
    by code_simp
  have cur: "current_material (seqtrace_init [7::nat] 0) = 0" by code_simp
  from seqtrace_step_material_choice [OF step flag conn mn [symmetric] pn [symmetric]]
  have "current_material (projr (seqtrace_step example_element example_objs 0 False
      (seqtrace_init [7] 0) (''s3'', Map.empty))) =
      (if (1::nat) = current_material (seqtrace_init [7::nat] 0) then 2 else 1)"
    by blast
  then show ?thesis using mn pn cur by simp
qed

text \<open>
  Claim C10. One current-material variable serves all live ray paths of a \<^verbatim>\<open>seqtrace\<close> call.
  It starts as the background medium. In an iteration that completes at a non-mirror
  entry, first every live path's last bundle is propagated by the old current material,
  then the current material is replaced once, by the choice of \<^verbatim>\<open>findoutWhichMaterial\<close>, and
  then every live path's last bundle is refracted by that one new material. At a mirror
  entry every live path is propagated and reflected by the current material, which stays
  as it is.
\<close>

theorem seqtrace_shared_cursor:
  assumes "seqtrace_step el objs bg splitup st (surfkey, surfoptions) = Inr st'"
  shows "current_material (seqtrace_init raybundle bg) = bg \<and>
         (refract_flag surfoptions \<longrightarrow>
            (\<exists>mnkey pnkey. surf_mat_connection el surfkey = Some (mnkey, pnkey) \<and>
               current_material st' =
                 findoutWhichMaterial (material_or_background (materials el) mnkey bg)
                   (material_or_background (materials el) pnkey bg) (current_material st)) \<and>
            calls st' = calls st @
              map (\<lambda>rp. Propagate (current_material st) (last rp)) (rpaths st) @
              map (\<lambda>rp. Refract (current_material st') (last rp)) (rpaths st)) \<and>
         (\<not> refract_flag surfoptions \<longrightarrow>
            current_material st' = current_material st \<and>
            calls st' = calls st @
              map (\<lambda>rp. Propagate (current_material st) (last rp)) (rpaths st) @
              map (\<lambda>rp. Reflect (current_material st) (last rp)) (rpaths st))"
proof -
  from assms obtain current_surface mnkey pnkey hc h cs rps rpaths_new where
    c: "surf_mat_connection el surfkey = Some (mnkey, pnkey)" and
    pr: "propagate_all (\<lambda>b. propagate (objs (current_material st)) b current_surface)
       (current_material st) (rpaths st) (heap st, calls st) = Inr hc" and
    cur: "current_material st' =
       (if refract_flag surfoptions
        then findoutWhichMaterial (material_or_background (materials el) mnkey bg)
               (material_or_background (materials el) pnkey bg) (current_material st)
        else current_material st)" and
    ia: "interact_all
       (\<lambda>b. (if refract_flag surfoptions then refract else reflect)
               (objs (current_material st')) b current_surface splitup)
       ((if refract_flag surfoptions then Refract else Reflect) (current_material st'))
       (rpaths st) hc = Inr (h, cs, rps, rpaths_new)" and
    cs: "calls st' = cs"
    by (rule seqtrace_step_Inr)
  obtain h1 cs1 where hc: "hc = (h1, cs1)" by (cases hc)
  from propagate_all_calls [OF pr [unfolded hc]]
  have cs1: "cs1 = calls st @ map (\<lambda>rp. Propagate (current_material st) (last rp)) (rpaths st)"
    by simp
  from interact_all_calls [OF ia [unfolded hc]]
  have "cs = cs1 @ map (\<lambda>rp. (if refract_flag surfoptions then Refract else Reflect)
            (current_material st') (last rp)) (rpaths st)"
    by simp
  with cs1 cs cur c show ?thesis
    by (simp add: seqtrace_init_def)
qed

text \<open>
  The example element traced with splitting: after the first surface there are two live
  paths, and at the second surface both are propagated by the glass (object 1) and both
  refracted by the background medium (object 0).
\<close>

theorem seqtrace_shared_cursor_witness:
  "rpaths (projr (seqtrace example_element example_objs [7] [(''s1'', Map.empty)] 0 True)) =
     [[0, 1], [3, 2]] \<and>
   current_material
     (projr (seqtrace example_element example_objs [7] [(''s1'', Map.empty)] 0 True)) = 1 \<and>
   calls (projr (seqtrace example_element example_objs [7] [(''s1'', Map.empty)] 0 True)) =
     [Propagate 0 0, Refract 1 0] \<and>
   current_material (projr (seqtrace_step example_element example_objs 0 True
      (projr (seqtrace example_element example_objs [7] [(''s1'', Map.empty)] 0 True))
      (''s2'', Map.empty))) = 0 \<and>
   calls (projr (seqtrace_step example_element example_objs 0 True
      (projr (seqtrace example_element example_objs [7] [(''s1'', Map.empty)] 0 True))
      (''s2'', Map.empty))) =
     [Propagate 0 0, Refract 1 0, Propagate 1 1, Propagate 1 2, Refract 0 1, Refract 0 2]"
proof -
  define st where
    "st = projr (seqtrace example_element example_objs [7] [(''s1'', Map.empty)] 0 True)"
  define st' where
    "st' = projr (seqtrace_step example_element example_objs 0 True st (''s2'', Map.empty))"
  have step: "seqtrace_step example_element example_objs 0 True st (''s2'', Map.empty) = Inr st'"
    unfolding st_def st'_def by code_simp
  have flag: "refract_flag Map.empty" by code_simp
  have paths: "rpaths st = [[0, 1], [3, 2]]" unfolding st_def by code_simp
  have cur: "current_material st = 1" unfolding st_def by code_simp
  have cur': "current_material st' = 0" unfolding st_def st'_def by code_simp
  have cs: "calls st = [Propagate 0 0, Refract 1 0]" unfolding st_def by code_simp
  from seqtrace_shared_cursor [OF step, of "[7]"] flag
  have "calls st' = calls st @
              map (\<lambda>rp. Propagate (current_material st) (last rp)) (rpaths st) @
              map (\<lambda>rp. Refract (current_material st') (last rp)) (rpaths st)"
    by blast
  then have "calls st' =
      [Propagate 0 0, Refract 1 0, Propagate 1 1, Propagate 1 2, Refract 0 1, Refract 0 2]"
    by (simp add: paths cur cur' cs)
  then show ?thesis using paths cur cur' cs unfolding st'_def st_def by simp
qed

subsection \<open>Copies and fresh objects\<close>

lemma deepcopy_memo_fresh:
  assumes "distinct rs" "\<forall>r \<in> set rs. r < length h" "\<forall>r \<in> set rs. memo r = None"
  shows "deepcopy_memo h memo rs = (h @ deref h rs, [length h ..< length h + length rs])"
  using assms
proof (induction rs arbitrary: h memo)
  case Nil
  show ?case by (simp add: deref_def)
next
  case (Cons r rs)
  have d: "distinct rs" and nr: "r \<notin> set rs" using Cons.prems(1) by auto
  have lt: "\<forall>x \<in> set rs. x < length (h @ [h ! r])" using Cons.prems(2) by auto
  have mm: "\<forall>x \<in> set rs. (memo(r \<mapsto> length h)) x = None"
    using Cons.prems(3) nr by auto
  have same: "deref (h @ [h ! r]) rs = deref h rs"
    using Cons.prems(2) by (simp add: deref_def nth_append)
  define iv where "iv = [length (h @ [h ! r]) ..< length (h @ [h ! r]) + length rs]"
  have up: "[length h ..< length h + length (r # rs)] = length h # iv"
    unfolding iv_def using upt_conv_Cons [of "length h" "length h + Suc (length rs)"] by simp
  have none: "memo r = None" using Cons.prems(3) by simp
  have "deepcopy_memo (h @ [h ! r]) (memo(r \<mapsto> length h)) rs =
      ((h @ [h ! r]) @ deref (h @ [h ! r]) rs, iv)"
    unfolding iv_def by (rule Cons.IH [of "h @ [h ! r]" "memo(r \<mapsto> length h)", OF d lt mm])
  then have ih: "deepcopy_memo (h @ [h ! r]) (memo(r \<mapsto> length h)) rs =
      (h @ [h ! r] @ deref h rs, iv)"
    by (simp only: same append_assoc)
  have "deepcopy_memo h memo (r # rs) = (h @ [h ! r] @ deref h rs, length h # iv)"
    by (simp only: deepcopy_memo.simps none option.case Let_def ih prod.case)
  also have "h @ [h ! r] @ deref h rs = h @ deref h (r # rs)"
    by (simp add: deref_def)
  finally show ?case by (simp only: up)
qed

lemma deepcopy_fresh:
  assumes "distinct rp" "\<forall>r \<in> set rp. r < length h"
  shows "deepcopy h rp = (h @ deref h rp, [length h ..< length h + length rp])"
  unfolding deepcopy_def by (rule deepcopy_memo_fresh) (use assms in simp_all)

lemma deref_append_heap:
  "\<forall>r \<in> set rp. r < length h \<Longrightarrow> deref (h @ ext) rp = deref h rp"
  by (simp add: deref_def nth_append)

lemma deref_upt: "deref (h @ xs @ ext) [length h ..< length h + length xs] = xs"
  unfolding deref_def by (rule nth_equalityI) (simp_all add: nth_append)

lemma copy_branches_spec:
  assumes "distinct rp" "\<forall>r \<in> set rp. r < length h"
    and "distinct rbs" "\<forall>r \<in> set rbs. r < length h"
    and "copy_branches h rp rbs = (h2, new)"
  shows "(\<exists>ext. h2 = h @ ext) \<and>
         map (deref h2) new = map (\<lambda>rb. deref h rp @ [h ! rb]) rbs \<and>
         (\<forall>p \<in> set new. p \<noteq> []) \<and>
         distinct (concat new) \<and>
         set (concat new) \<subseteq> set rbs \<union> {length h ..< length h2}"
  using assms
proof (induction rbs arbitrary: h h2 new)
  case Nil
  then show ?case by simp
next
  case (Cons rb rbs)
  define h1 where "h1 = h @ deref h rp"
  define cp where "cp = [length h ..< length h + length rp]"
  have dc: "deepcopy h rp = (h1, cp)"
    unfolding h1_def cp_def by (rule deepcopy_fresh) (use Cons.prems in simp_all)
  obtain h3 rest where cb: "copy_branches h1 rp rbs = (h3, rest)"
    by (cases "copy_branches h1 rp rbs")
  from Cons.prems(5) dc cb have res: "h2 = h3" "new = (cp @ [rb]) # rest"
    by (simp_all add: Let_def appendRayBundle_def)
  have p1: "\<forall>r \<in> set rp. r < length h1" using Cons.prems(2) by (auto simp add: h1_def)
  have p2: "distinct rbs" using Cons.prems(3) by simp
  have p3: "\<forall>r \<in> set rbs. r < length h1" using Cons.prems(4) by (auto simp add: h1_def)
  from Cons.IH [OF Cons.prems(1) p1 p2 p3 cb]
  obtain ext where
    ih: "h3 = h1 @ ext"
      "map (deref h3) rest = map (\<lambda>rb. deref h1 rp @ [h1 ! rb]) rbs"
      "\<forall>p \<in> set rest. p \<noteq> []"
      "distinct (concat rest)"
      "set (concat rest) \<subseteq> set rbs \<union> {length h1 ..< length h3}"
    by blast
  have len: "length h1 = length h + length rp" by (simp add: h1_def deref_def)
  have rb: "rb < length h" "rb \<notin> set rbs" using Cons.prems(3,4) by auto
  have a: "\<exists>ext. h2 = h @ ext" using ih(1) res(1) by (simp add: h1_def)
  have v1: "deref h3 cp = deref h rp"
    unfolding ih(1) h1_def cp_def
    using deref_upt [of h "deref h rp" ext] by (simp add: deref_def)
  have v2: "h3 ! rb = h ! rb"
    using rb(1) by (simp add: ih(1) h1_def nth_append)
  have v3: "map (\<lambda>rb. deref h1 rp @ [h1 ! rb]) rbs = map (\<lambda>rb. deref h rp @ [h ! rb]) rbs"
    using Cons.prems(2,4) by (auto simp add: h1_def deref_def nth_append)
  have b: "map (deref h2) new = map (\<lambda>rb. deref h rp @ [h ! rb]) (rb # rbs)"
    using ih(2) v1 v2 v3 by (simp add: res) (simp add: deref_def)
  have c: "\<forall>p \<in> set new. p \<noteq> []" using ih(3) by (simp add: res)
  have cpset: "set cp = {length h ..< length h1}" by (simp add: cp_def len)
  have le: "length h1 \<le> length h3" by (simp add: ih(1))
  have rest_refs: "x \<noteq> rb \<and> (x < length h \<or> length h1 \<le> x)" if "x \<in> set (concat rest)" for x
  proof -
    from that ih(5) have "x \<in> set rbs \<or> length h1 \<le> x" by auto
    then show ?thesis using rb Cons.prems(4) len by auto
  qed
  have cp_refs: "length h \<le> x \<and> x < length h1" if "x \<in> set cp" for x
    using that cpset by simp
  have d1: "distinct cp" by (simp add: cp_def)
  have d2: "rb \<notin> set cp" using cp_refs rb(1) by fastforce
  have d3: "rb \<notin> set (concat rest)" using rest_refs by blast
  have d4: "set cp \<inter> set (concat rest) = {}"
  proof (rule ccontr)
    assume "set cp \<inter> set (concat rest) \<noteq> {}"
    then obtain x where x: "x \<in> set cp" "x \<in> set (concat rest)" by blast
    from cp_refs [OF x(1)] rest_refs [OF x(2)] show False by linarith
  qed
  have "concat new = cp @ rb # concat rest" by (simp add: res)
  then have d: "distinct (concat new)"
    using d1 d2 d3 d4 ih(4) by (simp only: distinct_append distinct.simps set_simps) blast
  have e: "set (concat new) \<subseteq> set (rb # rbs) \<union> {length h ..< length h2}"
    using ih(5) cpset le by (auto simp add: res len)
  from a b c d e show ?case by blast
qed

lemma nth_created_tl:
  "map ((!) (h @ created)) [Suc (length h) ..< length h + length created] = tl created"
  by (rule nth_equalityI) (simp_all add: nth_append nth_tl)

lemma interact_path_Inr:
  assumes run: "interact_path interact h rp = Inr (h2, rp', new)"
    and d: "distinct rp" and lt: "\<forall>r \<in> set rp. r < length h"
  shows "rp \<noteq> [] \<and> interact (h ! last rp) \<noteq> [] \<and> rp' = rp @ [length h] \<and>
         (\<exists>ext. h2 = h @ interact (h ! last rp) @ ext) \<and>
         map (deref h2) new = map (\<lambda>b. deref h rp @ [b]) (tl (interact (h ! last rp))) \<and>
         (\<forall>p \<in> set new. p \<noteq> []) \<and> distinct (concat new) \<and>
         set (concat new) \<subseteq> {Suc (length h) ..< length h2}"
proof -
  define created where "created = interact (h ! last rp)"
  define rbs where "rbs = [Suc (length h) ..< length h + length created]"
  have ne: "rp \<noteq> []" using run by (auto simp add: interact_path_def)
  have cne: "created \<noteq> []"
    using run ne by (auto simp add: interact_path_def Let_def created_def split: prod.splits list.splits)
  then have rbl: "[length h ..< length h + length created] = length h # rbs"
    unfolding rbs_def using upt_conv_Cons [of "length h" "length h + length created"] by simp
  obtain h3 new3 where cb: "copy_branches (h @ created) rp rbs = (h3, new3)"
    by (cases "copy_branches (h @ created) rp rbs")
  from run ne have res: "h2 = h3" "rp' = rp @ [length h]" "new = new3"
    by (simp_all add: interact_path_def Let_def created_def[symmetric] rbl cb [unfolded rbs_def]
        rbs_def appendRayBundle_def)
  have lt': "\<forall>r \<in> set rp. r < length (h @ created)" using lt by auto
  have rd: "distinct rbs" by (simp add: rbs_def)
  have rlt: "\<forall>r \<in> set rbs. r < length (h @ created)" by (auto simp add: rbs_def)
  from copy_branches_spec [OF d lt' rd rlt cb] obtain ext where
    sp: "h3 = (h @ created) @ ext"
      "map (deref h3) new3 = map (\<lambda>rb. deref (h @ created) rp @ [(h @ created) ! rb]) rbs"
      "\<forall>p \<in> set new3. p \<noteq> []"
      "distinct (concat new3)"
      "set (concat new3) \<subseteq> set rbs \<union> {length (h @ created) ..< length h3}"
    by blast
  have "map (\<lambda>rb. deref (h @ created) rp @ [(h @ created) ! rb]) rbs =
        map (\<lambda>b. deref h rp @ [b]) (map ((!) (h @ created)) rbs)"
    using lt by (simp add: deref_append_heap)
  also have "map ((!) (h @ created)) rbs = tl created"
    unfolding rbs_def by (rule nth_created_tl)
  finally have vals: "map (deref h3) new3 = map (\<lambda>b. deref h rp @ [b]) (tl created)"
    using sp(2) by simp
  have le: "length h + length created \<le> length h3" using sp(1) by simp
  obtain c cs where ccs: "created = c # cs" using cne by (cases created) auto
  have refs: "set (concat new3) \<subseteq> {Suc (length h) ..< length h3}"
  proof
    fix x assume "x \<in> set (concat new3)"
    with sp(5) have "x \<in> set rbs \<or> x \<in> {length (h @ created) ..< length h3}" by blast
    then show "x \<in> {Suc (length h) ..< length h3}"
      using le by (auto simp add: rbs_def ccs)
  qed
  have ext: "\<exists>ext. h2 = h @ created @ ext" using sp(1) res(1) by simp
  show ?thesis
    using ne cne res(2) ext vals sp(3,4) refs
    unfolding res(1,3) created_def by blast
qed

subsection \<open>The loop over the live paths\<close>

lemma interact_all_Inr:
  assumes "interact_all interact ev rps (h, cs) = Inr (h2, cs2, rps', news)"
    and "distinct (concat rps)" and "\<forall>r \<in> set (concat rps). r < length h"
  shows "(\<exists>ext. h2 = h @ ext) \<and>
         (\<forall>rp \<in> set rps. rp \<noteq> [] \<and> interact (h ! last rp) \<noteq> []) \<and>
         map butlast rps' = rps \<and> (\<forall>p \<in> set rps'. p \<noteq> []) \<and>
         map (\<lambda>p. h2 ! last p) rps' = map (\<lambda>rp. hd (interact (h ! last rp))) rps \<and>
         map (deref h2) news =
           concat (map (\<lambda>rp. map (\<lambda>b. deref h rp @ [b]) (tl (interact (h ! last rp)))) rps) \<and>
         (\<forall>p \<in> set news. p \<noteq> []) \<and>
         distinct (map last rps' @ concat news) \<and>
         set (map last rps' @ concat news) \<subseteq> {length h ..< length h2}"
  using assms
proof (induction rps arbitrary: h cs h2 cs2 rps' news)
  case Nil
  then show ?case by simp
next
  case (Cons rp rps)
  from Cons.prems(1) obtain h1 rp1 new h3 cs3 rps3 news3 where
    a: "interact_path interact h rp = Inr (h1, rp1, new)" and
    b: "interact_all interact ev rps (h1, cs @ [ev (last rp)]) = Inr (h3, cs3, rps3, news3)" and
    c: "h2 = h3" "rps' = rp1 # rps3" "news = new @ news3"
    by (auto split: sum.splits prod.splits)
  have drp: "distinct rp" and drps: "distinct (concat rps)" using Cons.prems(2) by auto
  have ltrp: "\<forall>r \<in> set rp. r < length h" and ltrps: "\<forall>r \<in> set (concat rps). r < length h"
    using Cons.prems(3) by auto
  define created where "created = interact (h ! last rp)"
  from interact_path_Inr [OF a drp ltrp] obtain ext1 where
    p: "rp \<noteq> []" "created \<noteq> []" "rp1 = rp @ [length h]"
      "h1 = h @ created @ ext1"
      "map (deref h1) new = map (\<lambda>b. deref h rp @ [b]) (tl created)"
      "\<forall>p \<in> set new. p \<noteq> []" "distinct (concat new)"
      "set (concat new) \<subseteq> {Suc (length h) ..< length h1}"
    unfolding created_def by blast
  have len1: "length h + length created \<le> length h1" using p(4) by simp
  have len1': "length h < length h1" using len1 p(2) by (cases created) auto
  have ltrps1: "\<forall>r \<in> set (concat rps). r < length h1" using ltrps len1 by fastforce
  from Cons.IH [OF b drps ltrps1] obtain ext2 where
    ih: "h3 = h1 @ ext2"
      "\<forall>rp \<in> set rps. rp \<noteq> [] \<and> interact (h1 ! last rp) \<noteq> []"
      "map butlast rps3 = rps" "\<forall>p \<in> set rps3. p \<noteq> []"
      "map (\<lambda>p. h3 ! last p) rps3 = map (\<lambda>rp. hd (interact (h1 ! last rp))) rps"
      "map (deref h3) news3 =
         concat (map (\<lambda>rp. map (\<lambda>b. deref h1 rp @ [b]) (tl (interact (h1 ! last rp)))) rps)"
      "\<forall>p \<in> set news3. p \<noteq> []"
      "distinct (map last rps3 @ concat news3)"
      "set (map last rps3 @ concat news3) \<subseteq> {length h1 ..< length h3}"
    by blast
  have len3: "length h1 \<le> length h3" using ih(1) by simp
  have old: "h1 ! r = h ! r" if "r < length h" for r
    using that by (simp add: p(4) nth_append)
  have lastlt: "last q < length h" if "q \<in> set rps" for q
  proof -
    from that ih(2) have "q \<noteq> []" by blast
    then have "last q \<in> set q" by simp
    with that ltrps show ?thesis by auto
  qed
  have same_last: "h1 ! last q = h ! last q" if "q \<in> set rps" for q
    using old lastlt that by blast
  have same_deref: "deref h1 q = deref h q" if "q \<in> set rps" for q
  proof -
    from that ltrps have "\<forall>r \<in> set q. r < length h" by auto
    then show ?thesis unfolding p(4) by (rule deref_append_heap)
  qed
  have g1: "\<exists>ext. h2 = h @ ext" using ih(1) p(4) c(1) by simp
  have g2: "\<forall>q \<in> set (rp # rps). q \<noteq> [] \<and> interact (h ! last q) \<noteq> []"
    using p(1,2) ih(2) same_last by (auto simp add: created_def)
  have g3: "map butlast rps' = rp # rps" using ih(3) p(3) c(2) by simp
  have g4: "\<forall>q \<in> set rps'. q \<noteq> []" using ih(4) p(3) c(2) by simp
  have "h3 ! length h = created ! 0"
    using p(2) by (cases created) (simp_all add: ih(1) p(4) nth_append)
  then have first: "h3 ! last rp1 = hd created"
    using p(2) by (simp add: p(3) hd_conv_nth)
  have "map (\<lambda>rp. hd (interact (h1 ! last rp))) rps = map (\<lambda>rp. hd (interact (h ! last rp))) rps"
    using same_last by (simp cong: map_cong)
  with ih(5) first have g5:
    "map (\<lambda>p. h2 ! last p) rps' = map (\<lambda>rp. hd (interact (h ! last rp))) (rp # rps)"
    by (simp add: c created_def)
  have newlt: "\<forall>r \<in> set q. r < length h1" if "q \<in> set new" for q
    using that p(8) by fastforce
  have "map (deref h3) new = map (deref h1) new"
    using newlt by (simp add: ih(1) deref_append_heap cong: map_cong)
  moreover have
    "concat (map (\<lambda>rp. map (\<lambda>b. deref h1 rp @ [b]) (tl (interact (h1 ! last rp)))) rps) =
     concat (map (\<lambda>rp. map (\<lambda>b. deref h rp @ [b]) (tl (interact (h ! last rp)))) rps)"
    using same_last same_deref by (simp cong: map_cong)
  ultimately have g6: "map (deref h2) news =
     concat (map (\<lambda>rp. map (\<lambda>b. deref h rp @ [b]) (tl (interact (h ! last rp)))) (rp # rps))"
    using ih(6) p(5) by (simp add: c created_def)
  have g7: "\<forall>q \<in> set news. q \<noteq> []" using p(6) ih(7) by (auto simp add: c)
  have r1: "Suc (length h) \<le> x \<and> x < length h1" if "x \<in> set (concat new)" for x
    using that p(8) by auto
  have r2: "length h1 \<le> x \<and> x < length h3" if "x \<in> set (map last rps3 @ concat news3)" for x
    using that ih(9) by auto
  have eq: "map last rps' @ concat news =
      length h # map last rps3 @ concat new @ concat news3"
    by (simp add: c p(3))
  have d1: "length h \<notin> set (map last rps3 @ concat new @ concat news3)"
  proof
    assume "length h \<in> set (map last rps3 @ concat new @ concat news3)"
    then consider "length h \<in> set (concat new)" | "length h \<in> set (map last rps3 @ concat news3)"
      by auto
    then show False
    proof cases
      case 1
      from r1 [OF this] show False by simp
    next
      case 2
      from r2 [OF this] len1' show False by simp
    qed
  qed
  have d2: "set (concat new) \<inter> set (map last rps3 @ concat news3) = {}"
  proof (rule ccontr)
    assume "set (concat new) \<inter> set (map last rps3 @ concat news3) \<noteq> {}"
    then obtain x where "x \<in> set (concat new)" "x \<in> set (map last rps3 @ concat news3)" by blast
    from r1 [OF this(1)] r2 [OF this(2)] show False by simp
  qed
  have d3: "distinct (map last rps3 @ concat new @ concat news3)"
    using ih(8) p(7) d2 by auto
  have g8: "distinct (map last rps' @ concat news)"
    unfolding eq using d1 d3 by simp
  have g9: "set (map last rps' @ concat news) \<subseteq> {length h ..< length h2}"
  proof
    fix x assume "x \<in> set (map last rps' @ concat news)"
    then consider "x = length h" | "x \<in> set (concat new)" | "x \<in> set (map last rps3 @ concat news3)"
      unfolding eq by auto
    then show "x \<in> {length h ..< length h2}"
    proof cases
      case 1
      then show ?thesis using len1' len3 by (simp add: c(1))
    next
      case 2
      from r1 [OF this] len3 show ?thesis by (simp add: c(1))
    next
      case 3
      from r2 [OF this] len1' show ?thesis by (simp add: c(1))
    qed
  qed
  from g1 g2 g3 g4 g5 g6 g7 g8 g9 show ?case by blast
qed

lemma propagate_all_heap:
  assumes "propagate_all prop m rps (h, cs) = Inr (h', cs')"
    and "distinct (map last rps)" and "\<forall>rp \<in> set rps. last rp < length h"
  shows "length h' = length h \<and>
         (\<forall>r < length h. h' ! r = (if r \<in> last ` set rps then prop (h ! r) else h ! r))"
  using assms
proof (induction rps arbitrary: h cs)
  case Nil
  then show ?case by simp
next
  case (Cons rp rps)
  define h1 where "h1 = h[last rp := prop (h ! last rp)]"
  from Cons.prems(1) have ne: "rp \<noteq> []" by (auto split: if_splits)
  with Cons.prems(1) have
    run: "propagate_all prop m rps (h1, cs @ [Propagate m (last rp)]) = Inr (h', cs')"
    by (simp add: Let_def h1_def)
  have d: "distinct (map last rps)" and nl: "last rp \<notin> last ` set rps"
    using Cons.prems(2) by auto
  have lt: "\<forall>rp \<in> set rps. last rp < length h1" using Cons.prems(3) by (simp add: h1_def)
  from Cons.IH [OF run d lt] have
    ih: "length h' = length h1"
      "\<forall>r < length h1. h' ! r = (if r \<in> last ` set rps then prop (h1 ! r) else h1 ! r)"
    by blast+
  have "h' ! r = (if r \<in> last ` set (rp # rps) then prop (h ! r) else h ! r)"
    if "r < length h" for r
  proof (cases "r = last rp")
    case True
    then show ?thesis using ih(2) nl that by (simp add: h1_def)
  next
    case False
    then show ?thesis using ih(2) that by (simp add: h1_def)
  qed
  then show ?case using ih(1) by (simp add: h1_def)
qed

lemma mset_concat_snoc:
  "\<forall>p \<in> set ps. p \<noteq> [] \<Longrightarrow>
     mset (concat ps) = mset (concat (map butlast ps)) + mset (map last ps)"
proof (induction ps)
  case Nil
  show ?case by simp
next
  case (Cons p ps)
  then have "p \<noteq> []" by simp
  then have "mset p = mset (butlast p @ [last p])" by simp
  also have "\<dots> = mset (butlast p) + {#last p#}" by simp
  finally have "mset p = mset (butlast p) + {#last p#}" .
  moreover have "mset (concat ps) = mset (concat (map butlast ps)) + mset (map last ps)"
    using Cons by simp
  ultimately show ?case by simp
qed

lemma distinct_concat_disjoint:
  assumes "distinct (concat ps)" "\<forall>p \<in> set ps. p \<noteq> []"
    and "i < length ps" "j < length ps" "i \<noteq> j"
  shows "set (ps ! i) \<inter> set (ps ! j) = {}"
proof -
  from assms(2) have "[] \<notin> set ps" by blast
  then have "removeAll [] ps = ps" by (rule removeAll_id)
  with assms(1) have d: "distinct ps"
    and dj: "\<And>ys zs. ys \<in> set ps \<Longrightarrow> zs \<in> set ps \<Longrightarrow> ys \<noteq> zs \<Longrightarrow> set ys \<inter> set zs = {}"
    by (simp_all add: distinct_concat_iff)
  from d assms(3-5) have "ps ! i \<noteq> ps ! j" by (simp add: nth_eq_iff_index_eq)
  then show ?thesis using dj assms(3,4) by simp
qed

lemma distinct_lasts:
  "distinct (concat ps) \<Longrightarrow> \<forall>p \<in> set ps. p \<noteq> [] \<Longrightarrow> distinct (map last ps)"
proof (induction ps)
  case Nil
  show ?case by simp
next
  case (Cons p ps)
  have ne: "p \<noteq> []" "\<forall>q \<in> set ps. q \<noteq> []" using Cons.prems(2) by simp_all
  have dp: "distinct (concat ps)" and dj: "set p \<inter> set (concat ps) = {}"
    using Cons.prems(1) by simp_all
  have inner: "last q \<in> set (concat ps)" if "q \<in> set ps" for q
  proof -
    from that ne(2) have "q \<noteq> []" by blast
    then have "last q \<in> set q" by (rule last_in_set)
    with that show ?thesis by auto
  qed
  have "last p \<in> set p" using ne(1) by (rule last_in_set)
  have nl: "last p \<notin> last ` set ps"
  proof
    assume "last p \<in> last ` set ps"
    then obtain q where q: "q \<in> set ps" "last p = last q" by (rule imageE)
    from inner [OF q(1)] q(2) have "last p \<in> set (concat ps)" by simp
    with \<open>last p \<in> set p\<close> dj show False by blast
  qed
  have ih: "distinct (map last ps)" by (rule Cons.IH [OF dp ne(2)])
  show ?case using ih nl by simp
qed

lemma map_snoc_cong:
  "map f ps = map f' qs \<Longrightarrow> map g ps = map g' qs \<Longrightarrow>
     map (\<lambda>p. f p @ [g p]) ps = map (\<lambda>q. f' q @ [g' q]) qs"
proof (induction ps arbitrary: qs)
  case Nil
  then show ?case by simp
next
  case (Cons p ps)
  then show ?case by (cases qs) auto
qed

lemma wf_paths_independent:
  assumes "wf_paths h ps" "i < length ps" "j < length ps" "i \<noteq> j" "r \<in> set (ps ! i)"
  shows "deref (h[r := v]) (ps ! j) = deref h (ps ! j)"
proof -
  from assms(1) have "distinct (concat ps)" "\<forall>p \<in> set ps. p \<noteq> []"
    by (simp_all add: wf_paths_def)
  from distinct_concat_disjoint [OF this assms(2,3,4)] assms(5)
  have "r \<notin> set (ps ! j)" by blast
  then have "h[r := v] ! x = h ! x" if "x \<in> set (ps ! j)" for x
    using that by (metis nth_list_update_neq)
  then have "map (\<lambda>x. h[r := v] ! x) (ps ! j) = map (\<lambda>x. h ! x) (ps ! j)"
    by (intro map_cong [OF refl])
  then show ?thesis by (simp add: deref_def)
qed

subsection \<open>One iteration with branching\<close>

lemma last_not_in_butlast:
  assumes d: "distinct (concat ps)" and ne: "\<forall>p \<in> set ps. p \<noteq> []"
    and rp: "rp \<in> set ps" and q: "q \<in> set ps"
  shows "last q \<notin> set (butlast rp)"
proof
  assume a: "last q \<in> set (butlast rp)"
  from rp obtain i where i: "i < length ps" "ps ! i = rp" by (auto simp add: in_set_conv_nth)
  from q obtain j where j: "j < length ps" "ps ! j = q" by (auto simp add: in_set_conv_nth)
  have qne: "q \<noteq> []" and rpne: "rp \<noteq> []" using ne rp q by auto
  have lq: "last q \<in> set q" using qne by (rule last_in_set)
  have inrp: "last q \<in> set rp" using a by (rule in_set_butlastD)
  show False
  proof (cases "i = j")
    case True
    then have "q = rp" using i j by simp
    have "distinct rp" using d rp by (simp add: distinct_concat_iff)
    then have "distinct (butlast rp @ [last rp])" using rpne by simp
    then have "last rp \<notin> set (butlast rp)" by simp
    with a \<open>q = rp\<close> show False by simp
  next
    case False
    from distinct_concat_disjoint [OF d ne i(1) j(1) False] i(2) j(2)
    have "set rp \<inter> set q = {}" by simp
    with lq inrp show False by blast
  qed
qed

lemma length_concat_tl:
  "length (concat (map (\<lambda>rp. map (g rp) (tl (f rp))) rps)) = (\<Sum>rp\<leftarrow>rps. length (f rp) - 1)"
  by (induction rps) simp_all

lemma seqtrace_step_effect:
  assumes wf: "wf_state st"
    and step: "seqtrace_step el objs bg splitup st (surfkey, surfoptions) = Inr st'"
    and surf: "surfaces el surfkey = Some current_surface"
    and hist: "hist = (\<lambda>rp. deref (heap st) (butlast rp) @
                 [propagate (objs (current_material st)) (heap st ! last rp) current_surface])"
    and ret: "ret = (\<lambda>rp. (if refract_flag surfoptions then refract else reflect)
                 (objs (current_material st')) (last (hist rp)) current_surface splitup)"
  shows "(\<forall>rp \<in> set (rpaths st). ret rp \<noteq> []) \<and>
         length (rpaths st') = length (rpaths st) + (\<Sum>rp\<leftarrow>rpaths st. length (ret rp) - 1) \<and>
         map butlast (take (length (rpaths st)) (rpaths st')) = rpaths st \<and>
         take (length (rpaths st)) (path_values st') =
           map (\<lambda>rp. hist rp @ [hd (ret rp)]) (rpaths st) \<and>
         drop (length (rpaths st)) (path_values st') =
           concat (map (\<lambda>rp. map (\<lambda>b. hist rp @ [b]) (tl (ret rp))) (rpaths st)) \<and>
         (\<forall>r \<in> set (concat (drop (length (rpaths st)) (rpaths st'))). length (heap st) \<le> r) \<and>
         wf_state st' \<and>
         (\<forall>i j r v. i < length (rpaths st') \<and> j < length (rpaths st') \<and> i \<noteq> j \<and>
            r \<in> set (rpaths st' ! i) \<longrightarrow>
            deref ((heap st')[r := v]) (rpaths st' ! j) = deref (heap st') (rpaths st' ! j))"
proof -
  define advance where
    "advance = (\<lambda>b. propagate (objs (current_material st)) b current_surface)"
  define interact where
    "interact = (\<lambda>b. (if refract_flag surfoptions then refract else reflect)
        (objs (current_material st')) b current_surface splitup)"
  define old where "old = rpaths st"
  define h0 where "h0 = heap st"
  from step obtain surface' mnkey pnkey hc h2 cs2 rps news where
    raw: "surfaces el surfkey = Some surface'"
      "propagate_all (\<lambda>b. propagate (objs (current_material st)) b surface')
         (current_material st) (rpaths st) (heap st, calls st) = Inr hc"
      "interact_all
         (\<lambda>b. (if refract_flag surfoptions then refract else reflect)
               (objs (current_material st')) b surface' splitup)
         ((if refract_flag surfoptions then Refract else Reflect) (current_material st'))
         (rpaths st) hc = Inr (h2, cs2, rps, news)"
      "heap st' = h2" "rpaths st' = rps @ news"
    by (rule seqtrace_step_Inr)
  have same_surface: "surface' = current_surface" using raw(1) surf by simp
  have pr: "propagate_all advance (current_material st) old (h0, calls st) = Inr hc"
    using raw(2) by (simp add: same_surface advance_def old_def h0_def)
  have ia: "interact_all interact
       ((if refract_flag surfoptions then Refract else Reflect) (current_material st'))
       old hc = Inr (h2, cs2, rps, news)"
    using raw(3) by (simp add: same_surface interact_def old_def)
  note res = raw(4,5)
  obtain h1 cs1 where hc: "hc = (h1, cs1)" by (cases hc)
  have ne: "\<forall>rp \<in> set old. rp \<noteq> []" and d: "distinct (concat old)"
    and lt: "\<forall>r \<in> set (concat old). r < length h0"
    using wf by (simp_all add: wf_state_def wf_paths_def old_def h0_def)
  have dl: "distinct (map last old)" using d ne by (rule distinct_lasts)
  have ll: "\<forall>rp \<in> set old. last rp < length h0"
  proof
    fix rp assume rp: "rp \<in> set old"
    then have "last rp \<in> set rp" using ne by simp
    with rp lt show "last rp < length h0" by auto
  qed
  from propagate_all_heap [OF pr [unfolded hc] dl ll] have
    len1: "length h1 = length h0" and
    val1: "\<And>r. r < length h0 \<Longrightarrow>
             h1 ! r = (if r \<in> last ` set old then advance (h0 ! r) else h0 ! r)"
    by blast+
  have hist_eq: "hist rp = deref h0 (butlast rp) @ [advance (h0 ! last rp)]" for rp
    by (simp add: hist advance_def h0_def)
  have ret_eq: "ret rp = interact (advance (h0 ! last rp))" for rp
    by (simp add: ret interact_def hist_eq)
  have last1: "h1 ! last rp = advance (h0 ! last rp)" if "rp \<in> set old" for rp
    using val1 [of "last rp"] ll that by simp
  have deref1: "deref h1 rp = hist rp" if rp: "rp \<in> set old" for rp
  proof -
    have rpne: "rp \<noteq> []" using ne rp by simp
    have "h1 ! r = h0 ! r" if "r \<in> set (butlast rp)" for r
    proof -
      have "r \<in> set rp" using that by (rule in_set_butlastD)
      then have "r < length h0" using lt rp by auto
      moreover have "r \<notin> last ` set old"
        using last_not_in_butlast [OF d ne rp] that by auto
      ultimately show ?thesis using val1 by simp
    qed
    then have "map ((!) h1) (butlast rp) = map ((!) h0) (butlast rp)"
      by (intro map_cong [OF refl])
    moreover have "deref h1 rp = deref h1 (butlast rp @ [last rp])" using rpne by simp
    ultimately show ?thesis
      using last1 [OF rp] by (simp add: deref_def hist_eq)
  qed
  have inter1: "interact (h1 ! last rp) = ret rp" if "rp \<in> set old" for rp
    using last1 [OF that] by (simp add: ret_eq)
  have lt1: "\<forall>r \<in> set (concat old). r < length h1" using lt len1 by simp
  from interact_all_Inr [OF ia [unfolded hc] d lt1] obtain ext where
    g: "h2 = h1 @ ext"
      "\<forall>rp \<in> set old. rp \<noteq> [] \<and> interact (h1 ! last rp) \<noteq> []"
      "map butlast rps = old" "\<forall>p \<in> set rps. p \<noteq> []"
      "map (\<lambda>p. h2 ! last p) rps = map (\<lambda>rp. hd (interact (h1 ! last rp))) old"
      "map (deref h2) news =
         concat (map (\<lambda>rp. map (\<lambda>b. deref h1 rp @ [b]) (tl (interact (h1 ! last rp)))) old)"
      "\<forall>p \<in> set news. p \<noteq> []"
      "distinct (map last rps @ concat news)"
      "set (map last rps @ concat news) \<subseteq> {length h1 ..< length h2}"
    by blast
  have lrps: "length rps = length old" using g(3) by (metis length_map)
  have c1: "\<forall>rp \<in> set old. ret rp \<noteq> []" using g(2) inter1 by auto
  have news_eq: "map (deref h2) news =
      concat (map (\<lambda>rp. map (\<lambda>b. hist rp @ [b]) (tl (ret rp))) old)"
    unfolding g(6) using deref1 inter1 by (simp cong: map_cong)
  have "length news = length (map (deref h2) news)" by simp
  also have "\<dots> = (\<Sum>rp\<leftarrow>old. length (ret rp) - 1)"
    unfolding news_eq by (rule length_concat_tl)
  finally have c2: "length (rpaths st') = length old + (\<Sum>rp\<leftarrow>old. length (ret rp) - 1)"
    by (simp add: res lrps)
  have c3: "map butlast (take (length old) (rpaths st')) = old"
    using g(3) lrps by (simp add: res)
  have old_in_h2: "deref h2 rp = hist rp" if "rp \<in> set old" for rp
  proof -
    from that lt1 have "\<forall>r \<in> set rp. r < length h1" by auto
    then have "deref h2 rp = deref h1 rp" unfolding g(1) by (rule deref_append_heap)
    then show ?thesis using deref1 [OF that] by simp
  qed
  have "map (\<lambda>p. deref h2 (butlast p)) rps = map (deref h2) (map butlast rps)"
    by simp
  also have "\<dots> = map hist old" unfolding g(3) using old_in_h2 by (simp cong: map_cong)
  finally have f1: "map (\<lambda>p. deref h2 (butlast p)) rps = map hist old" .
  have f2: "map (\<lambda>p. h2 ! last p) rps = map (\<lambda>rp. hd (ret rp)) old"
    unfolding g(5) using inter1 by (simp cong: map_cong)
  have "map (deref h2) rps = map (\<lambda>p. deref h2 (butlast p) @ [h2 ! last p]) rps"
  proof (intro map_cong [OF refl])
    fix p assume "p \<in> set rps"
    then have "p \<noteq> []" using g(4) by simp
    then have "deref h2 p = deref h2 (butlast p @ [last p])" by simp
    then show "deref h2 p = deref h2 (butlast p) @ [h2 ! last p]" by (simp add: deref_def)
  qed
  also have "\<dots> = map (\<lambda>rp. hist rp @ [hd (ret rp)]) old"
    using f1 f2 by (rule map_snoc_cong)
  finally have c4: "take (length old) (path_values st') =
      map (\<lambda>rp. hist rp @ [hd (ret rp)]) old"
    by (simp add: path_values_def res lrps)
  have c5: "drop (length old) (path_values st') =
      concat (map (\<lambda>rp. map (\<lambda>b. hist rp @ [b]) (tl (ret rp))) old)"
    using news_eq by (simp add: path_values_def res lrps)
  have newrefs: "length h0 \<le> r \<and> r < length h2" if "r \<in> set (map last rps @ concat news)" for r
    using that g(9) len1 by auto
  have c6: "\<forall>r \<in> set (concat (drop (length old) (rpaths st'))). length h0 \<le> r"
    using newrefs by (simp add: res lrps)
  have ms: "mset (concat (rps @ news)) = mset (concat old @ (map last rps @ concat news))"
    using mset_concat_snoc [OF g(4)] by (simp add: g(3))
  have "set (concat old) \<inter> set (map last rps @ concat news) = {}"
  proof (rule ccontr)
    assume "set (concat old) \<inter> set (map last rps @ concat news) \<noteq> {}"
    then obtain r where r: "r \<in> set (concat old)" "r \<in> set (map last rps @ concat news)"
      by blast
    from r(1) lt have "r < length h0" by blast
    with newrefs [OF r(2)] show False by simp
  qed
  with d g(8) have "distinct (concat old @ (map last rps @ concat news))"
    by (simp only: distinct_append)
  with ms have w2: "distinct (concat (rps @ news))"
    by (metis mset_eq_imp_distinct_iff)
  have w3: "\<forall>r \<in> set (concat (rps @ news)). r < length h2"
  proof
    fix r assume "r \<in> set (concat (rps @ news))"
    then have "r \<in> set (concat old @ (map last rps @ concat news))"
      using ms by (metis mset_eq_setD)
    then consider "r \<in> set (concat old)" | "r \<in> set (map last rps @ concat news)" by auto
    then show "r < length h2"
    proof cases
      case 1
      with lt1 have "r < length h1" by blast
      then show ?thesis by (simp add: g(1))
    next
      case 2
      from newrefs [OF this] show ?thesis by simp
    qed
  qed
  have w1: "\<forall>p \<in> set (rps @ news). p \<noteq> []" using g(4,7) by auto
  have c7: "wf_state st'"
    using w1 w2 w3 by (simp add: wf_state_def wf_paths_def res)
  then have wfp: "wf_paths (heap st') (rpaths st')" by (simp add: wf_state_def)
  have c8: "\<forall>i j r v. i < length (rpaths st') \<and> j < length (rpaths st') \<and> i \<noteq> j \<and>
            r \<in> set (rpaths st' ! i) \<longrightarrow>
            deref ((heap st')[r := v]) (rpaths st' ! j) = deref (heap st') (rpaths st' ! j)"
    using wf_paths_independent [OF wfp] by blast
  from c1 c2 c3 c4 c5 c6 c7 c8 show ?thesis
    unfolding old_def h0_def by blast
qed

text \<open>
  Every state \<^verbatim>\<open>seqtrace\<close> reaches is well formed: the paths it holds never share a bundle
  object.
\<close>

lemma seqtrace_init_wf: "wf_state (seqtrace_init raybundle background_medium)"
  by (simp add: wf_state_def wf_paths_def seqtrace_init_def RayPath_def)

lemma seqtrace_step_wf:
  assumes "wf_state st" "seqtrace_step el objs bg splitup st entry = Inr st'"
  shows "wf_state st'"
proof -
  obtain surfkey surfoptions where e: "entry = (surfkey, surfoptions)" by (cases entry)
  from assms(2) [unfolded e] obtain current_surface where
    "surfaces el surfkey = Some current_surface"
    by (rule seqtrace_step_Inr)
  from seqtrace_step_effect [OF assms(1) assms(2) [unfolded e] this refl refl]
  show ?thesis by blast
qed

lemma seqtrace_loop_wf:
  "wf_state st \<Longrightarrow> seqtrace_loop el objs bg splitup st sequence = Inr st' \<Longrightarrow> wf_state st'"
proof (induction sequence arbitrary: st)
  case Nil
  then show ?case by simp
next
  case (Cons entry sequence)
  from Cons.prems(2) obtain st1 where
    s: "seqtrace_step el objs bg splitup st entry = Inr st1"
       "seqtrace_loop el objs bg splitup st1 sequence = Inr st'"
    by (auto split: sum.splits)
  from seqtrace_step_wf [OF Cons.prems(1) s(1)] s(2) show ?case by (rule Cons.IH)
qed

lemma seqtrace_wf:
  "seqtrace el objs raybundle sequence background_medium splitup = Inr st \<Longrightarrow> wf_state st"
  unfolding seqtrace_def using seqtrace_init_wf by (rule seqtrace_loop_wf)


text \<open>
  Claim C2. Consider an iteration of \<^verbatim>\<open>seqtrace\<close> that completes, from a well-formed state.
  For a live path \<open>rp\<close> let \<open>hist rp\<close> be its bundles after propagation (the last one
  advanced in place) and \<open>ret rp\<close> the list of bundles that \<^verbatim>\<open>refract\<close> (or \<^verbatim>\<open>reflect\<close> at a
  mirror) returns for it, of length M. Then M is at least 1; the number of live paths
  grows by M - 1 for each previously live path; the previously live paths stay in place,
  each being the same bundle objects with the first returned bundle appended; after them
  come, for each previously live path in order, M - 1 new paths, each a copy of the
  path's history followed by one of the remaining returned bundles, and made of new
  objects only. The resulting state is again well formed, and overwriting any bundle
  object of one path leaves the contents of every other path as they are.
\<close>

theorem seqtrace_step_branching:
  assumes wf: "wf_state st"
    and step: "seqtrace_step el objs bg splitup st (surfkey, surfoptions) = Inr st'"
    and surf: "surfaces el surfkey = Some current_surface"
    and hist: "hist = (\<lambda>rp. deref (heap st) (butlast rp) @
                 [propagate (objs (current_material st)) (heap st ! last rp) current_surface])"
    and ret: "ret = (\<lambda>rp. (if refract_flag surfoptions then refract else reflect)
                 (objs (current_material st')) (last (hist rp)) current_surface splitup)"
  shows "(\<forall>rp \<in> set (rpaths st). ret rp \<noteq> []) \<and>
         length (rpaths st') = length (rpaths st) + (\<Sum>rp\<leftarrow>rpaths st. length (ret rp) - 1) \<and>
         map butlast (take (length (rpaths st)) (rpaths st')) = rpaths st \<and>
         take (length (rpaths st)) (path_values st') =
           map (\<lambda>rp. hist rp @ [hd (ret rp)]) (rpaths st) \<and>
         drop (length (rpaths st)) (path_values st') =
           concat (map (\<lambda>rp. map (\<lambda>b. hist rp @ [b]) (tl (ret rp))) (rpaths st)) \<and>
         (\<forall>r \<in> set (concat (drop (length (rpaths st)) (rpaths st'))). length (heap st) \<le> r) \<and>
         wf_state st' \<and>
         (\<forall>i j r v. i < length (rpaths st') \<and> j < length (rpaths st') \<and> i \<noteq> j \<and>
            r \<in> set (rpaths st' ! i) \<longrightarrow>
            deref ((heap st')[r := v]) (rpaths st' ! j) = deref (heap st') (rpaths st' ! j))"  using assms by (rule seqtrace_step_effect)


text \<open>
  The example element traced with splitting: the two paths that are live after the first
  surface become four at the second, and overwriting the last bundle of the first path
  (object 4) does not change the second path.
\<close>

theorem seqtrace_step_branching_witness:
  "rpaths (projr (seqtrace example_element example_objs [7] [(''s1'', Map.empty)] 0 True)) =
     [[0, 1], [3, 2]] \<and>
   rpaths (projr (seqtrace_step example_element example_objs 0 True
      (projr (seqtrace example_element example_objs [7] [(''s1'', Map.empty)] 0 True))
      (''s2'', Map.empty))) = [[0, 1, 4], [3, 2, 8], [6, 7, 5], [10, 11, 9]] \<and>
   path_values (projr (seqtrace_step example_element example_objs 0 True
      (projr (seqtrace example_element example_objs [7] [(''s1'', Map.empty)] 0 True))
      (''s2'', Map.empty))) =
     [[[7, 0], [1, 0], [1]], [[7, 0], [2, 0], [1]], [[7, 0], [1, 0], [2]], [[7, 0], [2, 0], [2]]] \<and>
   length (rpaths (projr (seqtrace_step example_element example_objs 0 True
      (projr (seqtrace example_element example_objs [7] [(''s1'', Map.empty)] 0 True))
      (''s2'', Map.empty)))) = 2 + ((2 - 1) + (2 - 1)) \<and>
   deref ((heap (projr (seqtrace_step example_element example_objs 0 True
      (projr (seqtrace example_element example_objs [7] [(''s1'', Map.empty)] 0 True))
      (''s2'', Map.empty))))[4 := [99]]) [3, 2, 8] = [[7, 0], [2, 0], [1]]"
proof -
  define st where
    "st = projr (seqtrace example_element example_objs [7] [(''s1'', Map.empty)] 0 True)"
  define st' where
    "st' = projr (seqtrace_step example_element example_objs 0 True st (''s2'', Map.empty))"
  have wf: "wf_state st" unfolding st_def by code_simp
  have step: "seqtrace_step example_element example_objs 0 True st (''s2'', Map.empty) = Inr st'"
    unfolding st_def st'_def by code_simp
  have surf: "surfaces example_element ''s2'' = Some ()" by code_simp
  have paths: "rpaths st = [[0, 1], [3, 2]]" unfolding st_def by code_simp
  have paths': "rpaths st' = [[0, 1, 4], [3, 2, 8], [6, 7, 5], [10, 11, 9]]"
    unfolding st_def st'_def by code_simp
  have vals': "path_values st' =
     [[[7, 0], [1, 0], [1]], [[7, 0], [2, 0], [1]], [[7, 0], [1, 0], [2]], [[7, 0], [2, 0], [2]]]"
    unfolding st_def st'_def by code_simp
  from seqtrace_step_branching [OF wf step surf refl refl]
  have indep: "\<And>i j r v. i < length (rpaths st') \<Longrightarrow> j < length (rpaths st') \<Longrightarrow> i \<noteq> j \<Longrightarrow>
      r \<in> set (rpaths st' ! i) \<Longrightarrow>
      deref ((heap st')[r := v]) (rpaths st' ! j) = deref (heap st') (rpaths st' ! j)"
    by blast
  have "deref ((heap st')[4 := [99]]) (rpaths st' ! 1) = deref (heap st') (rpaths st' ! 1)"
    by (rule indep [of 0 1 4]) (simp_all add: paths')
  moreover have "deref (heap st') (rpaths st' ! 1) = path_values st' ! 1"
    by (simp add: path_values_def paths')
  ultimately have "deref ((heap st')[4 := [99]]) [3, 2, 8] = [[7, 0], [2, 0], [1]]"
    by (simp add: paths' vals')
  then show ?thesis
    using paths paths' vals' unfolding st'_def st_def by simp
qed

section \<open>Properties of the least-squares fit\<close>

subsection \<open>Transposes and products\<close>

lemma dot_rows_commute: "dot_rows a b = dot_rows b a"
proof -
  have "map (\<lambda>(u, v). u * v) (zip a b) = map (\<lambda>(u, v). u * v) (zip b a)"
    by (rule nth_equalityI) (simp_all add: mult.commute)
  then show ?thesis by (simp add: dot_rows_def)
qed

lemma transpose_table:
  assumes "X \<noteq> []"
  shows "transpose (map (\<lambda>a. map (\<lambda>b. f a b) Y) X) = map (\<lambda>b. map (\<lambda>a. f a b) X) Y"
proof -
  define M where "M = map (\<lambda>a. map (\<lambda>b. f a b) Y) X"
  have ne: "M = [] \<Longrightarrow> length Y = 0" using assms by (simp add: M_def)
  have rect: "\<And>i. i < length M \<Longrightarrow> length (M ! i) = length Y" by (simp add: M_def)
  have "transpose M = map (\<lambda>i. map (\<lambda>j. M ! j ! i) [0..<length M]) [0..<length Y]"
    using ne rect by (rule transpose_rectangle)
  also have "\<dots> = map (\<lambda>b. map (\<lambda>a. f a b) X) Y"
    by (rule nth_equalityI) (auto simp add: M_def intro: nth_equalityI)
  finally show ?thesis unfolding M_def .
qed

lemma transpose_transpose_rect:
  assumes "X \<noteq> []" "\<forall>x \<in> set X. length x = n" "0 < n"
  shows "transpose (transpose X) = X"
proof -
  have "sorted (rev (map length X))"
  proof -
    have "map length X = replicate (length X) n"
      using assms(2) by (intro nth_equalityI) simp_all
    then show ?thesis by (simp add: sorted_replicate)
  qed
  then have "transpose (transpose X) = takeWhile (\<lambda>x. x \<noteq> []) X" by (rule transpose_transpose)
  also have "\<dots> = X" using assms(2,3) by (intro takeWhile_eq_all_conv [THEN iffD2]) auto
  finally show ?thesis .
qed

lemma matmul_transpose:
  assumes "X \<noteq> []" "\<forall>x \<in> set X. length x = n" "0 < n"
  shows "matmul Y (transpose X) = map (\<lambda>y. map (\<lambda>x. dot_rows y x) X) Y"
  by (simp add: matmul_def transpose_transpose_rect [OF assms])

lemma einsum_ij_kj_Inr:
  assumes "\<forall>x \<in> set X. length x = n" "\<forall>y \<in> set Y. length y = n"
  shows "einsum_ij_kj X Y = Inr (map (\<lambda>x. map (\<lambda>y. dot_rows x y) Y) X)"
  using assms by (simp add: einsum_ij_kj_def)

lemma einsum_transposed:
  assumes "X \<noteq> []" "\<forall>x \<in> set X. length x = n" "0 < n"
  shows "transpose (map (\<lambda>x. map (\<lambda>y. dot_rows x y) Y) X) = matmul Y (transpose X)"
proof -
  have "matmul Y (transpose X) = map (\<lambda>y. map (\<lambda>x. dot_rows x y) X) Y"
    using matmul_transpose [OF assms] by (simp add: dot_rows_commute)
  moreover have "transpose (map (\<lambda>x. map (\<lambda>y. dot_rows x y) Y) X) =
      map (\<lambda>y. map (\<lambda>x. dot_rows x y) X) Y"
    using assms(1) by (rule transpose_table)
  ultimately show ?thesis by simp
qed

lemma normal_matrices_plain:
  assumes shape: "X \<noteq> []" "\<forall>x \<in> set X. length x = n" "\<forall>y \<in> set Y. length y = n" "0 < n"
    and nosub: "\<not> use6x6 \<or> (tol \<le> linalg_norm (drop 4 X) \<and> tol \<le> linalg_norm (drop 4 Y))"
  shows "normal_matrices tol X Y use6x6 =
           Inr (matmul X (transpose X), matmul Y (transpose X), [])"
proof -
  have xx: "einsum_ij_kj X X = Inr (map (\<lambda>x. map (\<lambda>y. dot_rows x y) X) X)"
    using shape(2) shape(2) by (rule einsum_ij_kj_Inr)
  have yx: "einsum_ij_kj X Y = Inr (map (\<lambda>x. map (\<lambda>y. dot_rows x y) Y) X)"
    using shape(2) shape(3) by (rule einsum_ij_kj_Inr)
  have tx: "transpose (map (\<lambda>x. map (\<lambda>y. dot_rows x y) X) X) = matmul X (transpose X)"
    using shape(1,2,4) by (rule einsum_transposed)
  have ty: "transpose (map (\<lambda>x. map (\<lambda>y. dot_rows x y) Y) X) = matmul Y (transpose X)"
    using shape(1,2,4) by (rule einsum_transposed)
  show ?thesis
    unfolding normal_matrices_def xx yx and_then_def
    using nosub by (auto simp add: Let_def tx ty)
qed

text \<open>
  Claim C5. Let \<open>X\<close> be the input and \<open>Y\<close> the output reduced-state matrix of a fitting
  stage (columns are the perturbation rays, so both have the same number of columns, at
  least one). When no sub-block substitution applies (4-row mode, or 6-row mode with both
  direction-imaginary sub-blocks at or above the tolerance) and \<^verbatim>\<open>np.linalg.inv\<close> inverts
  \<open>X X\<^sup>T\<close>, the fit returns the product of \<open>Y X\<^sup>T\<close> with that inverse, where the transpose
  is the plain one, without conjugation.
\<close>

theorem bestfit_transfer_normal_equation:
  assumes shape: "X \<noteq> []" "\<forall>x \<in> set X. length x = n" "\<forall>y \<in> set Y. length y = n" "0 < n"
    and nosub: "\<not> use6x6 \<or> (tol \<le> linalg_norm (drop 4 X) \<and> tol \<le> linalg_norm (drop 4 Y))"
    and invertible: "linalg_inv (matmul X (transpose X)) = Inr XXinv"
    and product: "np_dot (matmul Y (transpose X)) XXinv = Inr T"
  shows "\<exists>ws. bestfit_transfer linalg_inv tol X Y use6x6 = Inr (T, ws)"
  unfolding bestfit_transfer_def normal_matrices_plain [OF shape nosub]
  by (simp add: and_then_def invertible product)

text \<open>
  Four perturbation rays with unit offsets in the four state components, and an output
  that is their free propagation over distance 2: the fit returns that propagation matrix.
\<close>

theorem bestfit_transfer_normal_equation_witness:
  "matmul [[1, 0, 2, 0], [0, 1, 0, 2], [0, 0, 1, 0], [0, 0, 0, 1]]
     (transpose [[1, 0, 0, 0], [0, 1, 0, 0], [0, 0, 1, 0], [0, 0, 0, 1]]) =
     [[1, 0, 2, 0], [0, 1, 0, 2], [0, 0, 1, 0], [0, 0, 0, 1]] \<and>
   (\<exists>ws. bestfit_transfer diag_inv (1 / 1000000)
      [[1, 0, 0, 0], [0, 1, 0, 0], [0, 0, 1, 0], [0, 0, 0, 1]]
      [[1, 0, 2, 0], [0, 1, 0, 2], [0, 0, 1, 0], [0, 0, 0, 1]] False =
      Inr ([[1, 0, 2, 0], [0, 1, 0, 2], [0, 0, 1, 0], [0, 0, 0, 1]], ws))"
proof -
  define X :: cmat where "X = [[1, 0, 0, 0], [0, 1, 0, 0], [0, 0, 1, 0], [0, 0, 0, 1]]"
  define Y :: cmat where "Y = [[1, 0, 2, 0], [0, 1, 0, 2], [0, 0, 1, 0], [0, 0, 0, 1]]"
  have s1: "X \<noteq> []" and s2: "\<forall>x \<in> set X. length x = 4" and s3: "\<forall>y \<in> set Y. length y = 4"
    by (simp_all add: X_def Y_def)
  have xxt: "matmul X (transpose X) = X" by (simp add: matmul_def X_def dot_rows_def)
  have yxt: "matmul Y (transpose X) = Y" by (simp add: matmul_def X_def Y_def dot_rows_def)
  have i: "diag_inv (matmul X (transpose X)) = Inr X"
    unfolding xxt by (simp add: diag_inv_def is_diagonal_def X_def)
  have p: "np_dot (matmul Y (transpose X)) X = Inr Y"
    unfolding yxt by (simp add: np_dot_def matmul_def X_def Y_def dot_rows_def)
  have s4: "(0::nat) < 4" by simp
  have nosub: "\<not> False \<or>
      (1 / 1000000 \<le> linalg_norm (drop 4 X) \<and> 1 / 1000000 \<le> linalg_norm (drop 4 Y))"
    by simp
  have "\<exists>ws. bestfit_transfer diag_inv (1 / 1000000) X Y False = Inr (Y, ws)"
    using s1 s2 s3 s4 nosub i p by (rule bestfit_transfer_normal_equation)
  then show ?thesis using yxt unfolding X_def Y_def by simp
qed

subsection \<open>The identity substitution\<close>

text \<open>
  Claim C6, as stated, fails for the direction-real sub-block. The code tests only the
  rows from 4 on (the direction-imaginary part, \<^verbatim>\<open>Ximag = X[4:, :]\<close>). Here rows 2 and 3 of
  \<open>X\<close> and \<open>Y\<close> (direction, real part) are zero while the direction-imaginary sub-block has
  norm 1: nothing is substituted, no warning is logged, the normal matrix keeps its zero
  rows, and the inversion raises.
\<close>

theorem bestfit_transfer_real_block_counterexample:
  "linalg_norm (take 2 (drop 2
     [[1, 0, 0], [0, 1, 0], [0, 0, 0], [0, 0, 0], [0, 0, 1], [0, 0, 0]])) < 1 / 1000000 \<and>
   normal_matrices (1 / 1000000)
     [[1, 0, 0], [0, 1, 0], [0, 0, 0], [0, 0, 0], [0, 0, 1], [0, 0, 0]]
     [[1, 0, 0], [0, 1, 0], [0, 0, 0], [0, 0, 0], [0, 0, 1], [0, 0, 0]] True =
     Inr ([[1, 0, 0, 0, 0, 0], [0, 1, 0, 0, 0, 0], [0, 0, 0, 0, 0, 0],
           [0, 0, 0, 0, 0, 0], [0, 0, 0, 0, 1, 0], [0, 0, 0, 0, 0, 0]],
          [[1, 0, 0, 0, 0, 0], [0, 1, 0, 0, 0, 0], [0, 0, 0, 0, 0, 0],
           [0, 0, 0, 0, 0, 0], [0, 0, 0, 0, 1, 0], [0, 0, 0, 0, 0, 0]], []) \<and>
   bestfit_transfer diag_inv (1 / 1000000)
     [[1, 0, 0], [0, 1, 0], [0, 0, 0], [0, 0, 0], [0, 0, 1], [0, 0, 0]]
     [[1, 0, 0], [0, 1, 0], [0, 0, 0], [0, 0, 0], [0, 0, 1], [0, 0, 0]] True =
     Inl LinAlgError"
proof -
  have nm: "normal_matrices (1 / 1000000)
     [[1, 0, 0], [0, 1, 0], [0, 0, 0], [0, 0, 0], [0, 0, 1], [0, 0, 0]]
     [[1, 0, 0], [0, 1, 0], [0, 0, 0], [0, 0, 0], [0, 0, 1], [0, 0, 0]] True =
     Inr ([[1, 0, 0, 0, 0, 0], [0, 1, 0, 0, 0, 0], [0, 0, 0, 0, 0, 0],
           [0, 0, 0, 0, 0, 0], [0, 0, 0, 0, 1, 0], [0, 0, 0, 0, 0, 0]],
          [[1, 0, 0, 0, 0, 0], [0, 1, 0, 0, 0, 0], [0, 0, 0, 0, 0, 0],
           [0, 0, 0, 0, 0, 0], [0, 0, 0, 0, 1, 0], [0, 0, 0, 0, 0, 0]], [])"
    by (simp add: normal_matrices_def and_then_def einsum_ij_kj_def dot_rows_def
        linalg_norm_def Let_def)
  have di: "diag_inv [[1, 0, 0, 0, 0, 0], [0, 1, 0, 0, 0, 0], [0, 0, 0, 0, 0, 0],
           [0, 0, 0, 0, 0, 0], [0, 0, 0, 0, 1, 0], [0, 0, 0, 0, 0, 0]] = Inl LinAlgError"
    by (simp add: diag_inv_def is_diagonal_def)
  have small: "linalg_norm (take 2 (drop 2
     [[1, 0, 0], [0, 1, 0], [0, 0, 0], [0, 0, 0], [0, 0, 1], [0, 0, 0]])) < 1 / 1000000"
    by (simp add: linalg_norm_def)
  show ?thesis
    using small nm by (simp add: bestfit_transfer_def di and_then_def)
qed

lemma matmul_self_shape:
  assumes "X \<noteq> []" "\<forall>x \<in> set X. length x = n" "0 < n"
  shows "length (matmul Y (transpose X)) = length Y"
    and "\<forall>row \<in> set (matmul Y (transpose X)). length row = length X"
  by (simp_all add: matmul_transpose [OF assms])

lemma set_lower_right_eye2_Inr:
  assumes "length M = 6" "\<forall>row \<in> set M. length row = 6"
  shows "set_lower_right_eye2 M =
           Inr (take 4 M @ [take 4 (M ! 4) @ [1, 0], take 4 (M ! 5) @ [0, 1]])"
  using assms by (simp add: set_lower_right_eye2_def)

lemma lower_right_block:
  assumes "length M = 6" "\<forall>row \<in> set M. length row = 6"
  shows "map (drop 4) (drop 4 (take 4 M @ [take 4 (M ! 4) @ [1, 0], take 4 (M ! 5) @ [0, 1]])) =
           [[1, 0], [0, 1]]"
  using assms by simp

text \<open>
  Claim C6, amended: in 6-row mode (\<open>X\<close> and \<open>Y\<close> with 6 rows and the same number of
  columns, at least one), whenever the direction-imaginary sub-block (rows 4 and 5) of the
  input matrix \<open>X\<close> or of the output matrix \<open>Y\<close> has norm below the numerical tolerance,
  the lower right 2 by 2 blocks of \<open>X X\<^sup>T\<close> and \<open>Y X\<^sup>T\<close> are replaced by the identity before
  the inversion, the warning is logged, and the computation goes on with the inversion of
  the substituted matrix.
\<close>

theorem bestfit_transfer_identity_substitution:
  assumes shape: "length X = 6" "length Y = 6"
      "\<forall>x \<in> set X. length x = n" "\<forall>y \<in> set Y. length y = n" "0 < n"
    and small: "linalg_norm (drop 4 X) < tol \<or> linalg_norm (drop 4 Y) < tol"
    and XX: "XX = with_eye2 (matmul X (transpose X))"
    and YX: "YX = with_eye2 (matmul Y (transpose X))"
  shows "normal_matrices tol X Y True = Inr (XX, YX, [Zero_rows_set_to_unity]) \<and>
         map (drop 4) (drop 4 XX) = [[1, 0], [0, 1]] \<and>
         map (drop 4) (drop 4 YX) = [[1, 0], [0, 1]] \<and>
         bestfit_transfer linalg_inv tol X Y True =
           and_then (linalg_inv XX) (\<lambda>XXinv.
           and_then (np_dot YX XXinv) (\<lambda>transfer.
             Inr (transfer, [Zero_rows_set_to_unity])))"
proof -
  have ne: "X \<noteq> []" using shape(1) by auto
  have xx: "einsum_ij_kj X X = Inr (map (\<lambda>x. map (\<lambda>y. dot_rows x y) X) X)"
    using shape(3) shape(3) by (rule einsum_ij_kj_Inr)
  have yx: "einsum_ij_kj X Y = Inr (map (\<lambda>x. map (\<lambda>y. dot_rows x y) Y) X)"
    using shape(3) shape(4) by (rule einsum_ij_kj_Inr)
  have tx: "transpose (map (\<lambda>x. map (\<lambda>y. dot_rows x y) X) X) = matmul X (transpose X)"
    using ne shape(3,5) by (rule einsum_transposed)
  have ty: "transpose (map (\<lambda>x. map (\<lambda>y. dot_rows x y) Y) X) = matmul Y (transpose X)"
    using ne shape(3,5) by (rule einsum_transposed)
  have sx: "length (matmul X (transpose X)) = 6"
      "\<forall>row \<in> set (matmul X (transpose X)). length row = 6"
    using matmul_self_shape [OF ne shape(3,5), of X] shape(1) by simp_all
  have sy: "length (matmul Y (transpose X)) = 6"
      "\<forall>row \<in> set (matmul Y (transpose X)). length row = 6"
    using matmul_self_shape [OF ne shape(3,5), of Y] shape(1,2) by simp_all
  have ex: "set_lower_right_eye2 (matmul X (transpose X)) = Inr XX"
    unfolding XX with_eye2_def using sx by (rule set_lower_right_eye2_Inr)
  have ey: "set_lower_right_eye2 (matmul Y (transpose X)) = Inr YX"
    unfolding YX with_eye2_def using sy by (rule set_lower_right_eye2_Inr)
  have nm: "normal_matrices tol X Y True = Inr (XX, YX, [Zero_rows_set_to_unity])"
    unfolding normal_matrices_def xx yx and_then_def
    using small by (auto simp add: Let_def tx ty ex ey)
  have blkx: "map (drop 4) (drop 4 XX) = [[1, 0], [0, 1]]"
    unfolding XX with_eye2_def using sx by (rule lower_right_block)
  have blky: "map (drop 4) (drop 4 YX) = [[1, 0], [0, 1]]"
    unfolding YX with_eye2_def using sy by (rule lower_right_block)
  have bt: "bestfit_transfer linalg_inv tol X Y True =
           and_then (linalg_inv XX) (\<lambda>XXinv.
           and_then (np_dot YX XXinv) (\<lambda>transfer.
             Inr (transfer, [Zero_rows_set_to_unity])))"
    unfolding bestfit_transfer_def nm by (simp add: and_then_def)
  from nm blkx blky bt show ?thesis by blast
qed

text \<open>
  Real directions: rows 4 and 5 of \<open>X\<close> are zero, so \<open>X X\<^sup>T\<close> is singular as it stands;
  with the substituted block the fit goes through and gives the identity.
\<close>

theorem bestfit_transfer_identity_substitution_witness:
  "linalg_norm (drop 4
     [[1, 0, 0, 0], [0, 1, 0, 0], [0, 0, 1, 0], [0, 0, 0, 1], [0, 0, 0, 0], [0, 0, 0, 0]])
     < 1 / 1000000 \<and>
   diag_inv (matmul
     [[1, 0, 0, 0], [0, 1, 0, 0], [0, 0, 1, 0], [0, 0, 0, 1], [0, 0, 0, 0], [0, 0, 0, 0]]
     (transpose
     [[1, 0, 0, 0], [0, 1, 0, 0], [0, 0, 1, 0], [0, 0, 0, 1], [0, 0, 0, 0], [0, 0, 0, 0]])) =
     Inl LinAlgError \<and>
   bestfit_transfer diag_inv (1 / 1000000)
     [[1, 0, 0, 0], [0, 1, 0, 0], [0, 0, 1, 0], [0, 0, 0, 1], [0, 0, 0, 0], [0, 0, 0, 0]]
     [[1, 0, 0, 0], [0, 1, 0, 0], [0, 0, 1, 0], [0, 0, 0, 1], [0, 0, 0, 0], [0, 0, 0, 0]] True =
     Inr ([[1, 0, 0, 0, 0, 0], [0, 1, 0, 0, 0, 0], [0, 0, 1, 0, 0, 0],
           [0, 0, 0, 1, 0, 0], [0, 0, 0, 0, 1, 0], [0, 0, 0, 0, 0, 1]],
          [Zero_rows_set_to_unity])"
proof -
  define X :: cmat where
    "X = [[1, 0, 0, 0], [0, 1, 0, 0], [0, 0, 1, 0], [0, 0, 0, 1], [0, 0, 0, 0], [0, 0, 0, 0]]"
  define I6 :: cmat where
    "I6 = [[1, 0, 0, 0, 0, 0], [0, 1, 0, 0, 0, 0], [0, 0, 1, 0, 0, 0],
           [0, 0, 0, 1, 0, 0], [0, 0, 0, 0, 1, 0], [0, 0, 0, 0, 0, 1]]"
  have s1: "length X = 6" and s3: "\<forall>x \<in> set X. length x = 4" by (simp_all add: X_def)
  have s5: "(0::nat) < 4" by simp
  have small: "linalg_norm (drop 4 X) < 1 / 1000000" by (simp add: linalg_norm_def X_def)
  then have small': "linalg_norm (drop 4 X) < 1 / 1000000 \<or> linalg_norm (drop 4 X) < 1 / 1000000"
    by simp
  have xxt: "matmul X (transpose X) =
      [[1, 0, 0, 0, 0, 0], [0, 1, 0, 0, 0, 0], [0, 0, 1, 0, 0, 0],
       [0, 0, 0, 1, 0, 0], [0, 0, 0, 0, 0, 0], [0, 0, 0, 0, 0, 0]]"
    by (simp add: matmul_def X_def dot_rows_def)
  have sing: "diag_inv (matmul X (transpose X)) = Inl LinAlgError"
    unfolding xxt by (simp add: diag_inv_def is_diagonal_def)
  have sub: "I6 = with_eye2 (matmul X (transpose X))"
    unfolding xxt by (simp add: with_eye2_def I6_def)
  have di: "diag_inv I6 = Inr I6" by (simp add: diag_inv_def is_diagonal_def I6_def)
  have dt: "np_dot I6 I6 = Inr I6" by (simp add: np_dot_def matmul_def I6_def dot_rows_def)
  from bestfit_transfer_identity_substitution [OF s1 s1 s3 s3 s5 small' sub sub, of diag_inv]
  have "bestfit_transfer diag_inv (1 / 1000000) X X True =
           and_then (diag_inv I6) (\<lambda>XXinv.
           and_then (np_dot I6 XXinv) (\<lambda>transfer.
             Inr (transfer, [Zero_rows_set_to_unity])))"
    by blast
  then have "bestfit_transfer diag_inv (1 / 1000000) X X True = Inr (I6, [Zero_rows_set_to_unity])"
    by (simp add: di dt and_then_def)
  then show ?thesis using small sing unfolding X_def I6_def by simp
qed

section \<open>Properties of the transfer matrix table\<close>

subsection \<open>A pilot trace to a mirror and back\<close>

lemma example_pilot_trace:
  "seqtrace example_element pilot_objs example_pilotbundle there_and_back 0 True =
     Inr (projr (seqtrace example_element pilot_objs example_pilotbundle there_and_back 0 True))"
  by (simp add: seqtrace_def seqtrace_init_def seqtrace_step_def example_element_def
      pilot_objs_def pilot_material_def refract_flag_def material_or_background_def
      findoutWhichMaterial_def interact_path_def RayPath_def appendRayBundle_def Let_def
      there_and_back_def)

lemma example_pilot_paths:
  "path_values (projr (seqtrace example_element pilot_objs example_pilotbundle
      there_and_back 0 True)) =
   [[pilot_at [pilot_x 1, pilot_x 2], pilot_at [pilot_x 2, pilot_x 4],
     pilot_at [pilot_x 4, pilot_x 8], pilot_at [pilot_x 8]]]"
  by (simp add: seqtrace_def seqtrace_init_def seqtrace_step_def example_element_def
      pilot_objs_def pilot_material_def refract_flag_def material_or_background_def
      findoutWhichMaterial_def interact_path_def RayPath_def appendRayBundle_def Let_def
      path_values_def deref_def deepcopy_def there_and_back_def example_pilotbundle_def
      RayBundle_def append_step_def magnify_def num_columns_def pilot_at_def pilot_x_def
      pilot_k_def)

lemma example_state_matrix: "state_matrix False (pilot_x a) pilot_k = Inr (state_diag a)"
  by (simp add: state_matrix_def reduce_matrix_x_def reduce_matrix_k_def first_column_3_def
      np_binop_def broadcast_def np_vstack_def and_then_def pilot_x_def pilot_k_def
      state_diag_def)

lemma example_fit:
  "a \<noteq> 0 \<Longrightarrow>
     bestfit_transfer diag_inv (1 / 1000000) (state_diag (complex_of_real a))
       (state_diag (complex_of_real b)) False =
     Inr (state_diag (complex_of_real (b / a)), [])"
  apply (simp add: bestfit_transfer_def normal_matrices_def einsum_ij_kj_def and_then_def
      state_diag_def dot_rows_def Let_def)
  apply (simp add: diag_inv_def is_diagonal_def np_dot_def matmul_def dot_rows_def
      linalg_norm_def imag_part_def)
  done

lemmas example_fit_2_2 = example_fit [of 2 2, simplified]
lemmas example_fit_2_4 = example_fit [of 2 4, simplified]
lemmas example_fit_4_4 = example_fit [of 4 4, simplified]
lemmas example_fit_4_8 = example_fit [of 4 8, simplified]
lemmas example_fit_8_8 = example_fit [of 8 8, simplified]

lemma state_diag_dot: "np_dot (state_diag a) (state_diag b) = Inr (state_diag (a * b))"
  by (simp add: np_dot_def matmul_def state_diag_def dot_rows_def)

lemma example_interval_1:
  "interval_transfer (surfaces example_element) example_rcs diag_inv (1 / 1000000) False
     (pilot_at [pilot_x 1, pilot_x 2]) (pilot_at [pilot_x 2, pilot_x 4]) ''s1'' ''s2'' =
   Inr (state_diag 2, [])"
  by (simp add: interval_transfer_def example_element_def example_rcs_def identity_frame_def
      py_last_def py_first_def pilot_at_def example_state_matrix and_then_def
      example_fit_2_2 example_fit_2_4 example_fit_4_4 state_diag_dot Let_def)

lemma example_interval_2:
  "interval_transfer (surfaces example_element) example_rcs diag_inv (1 / 1000000) False
     (pilot_at [pilot_x 2, pilot_x 4]) (pilot_at [pilot_x 4, pilot_x 8]) ''s2'' ''s1'' =
   Inr (state_diag 2, [])"
  by (simp add: interval_transfer_def example_element_def example_rcs_def identity_frame_def
      py_last_def py_first_def pilot_at_def example_state_matrix and_then_def
      example_fit_4_4 example_fit_4_8 example_fit_8_8 state_diag_dot Let_def)

lemma state_diag_inv: "a \<noteq> 0 \<Longrightarrow> diag_inv (state_diag a) = Inr (state_diag (1 / a))"
  by (simp add: diag_inv_def is_diagonal_def state_diag_def)

lemma there_and_back_hitlist:
  "fst (sequence_to_hitlist there_and_back) = [(''s1'', ''s2'', 1), (''s2'', ''s1'', 1)]"
  by (simp add: sequence_to_hitlist_def there_and_back_def)


text \<open>
  Claim C7 says that the table returned by \<^verbatim>\<open>calculateXYUV\<close> maps every triple of the hitlist
  to the composed forward transfer of that hit, and the triple with the surface keys
  exchanged to its inverse. The code stores both under keys that collide as soon as the
  sequence goes from one surface to another and back: for the sequence s1, s2, s1 the
  hitlist is (s1, s2, 1), (s2, s1, 1); the forward transfer of the first hit is the
  stretch by 2, but the second hit stores its inverse, the stretch by 1/2, under
  (s1, s2, 1) again, and that is what the returned table holds for the first hit.
\<close>

theorem calculateXYUV_reverse_key_overwrites:
  "fst (sequence_to_hitlist there_and_back) = [(''s1'', ''s2'', 1), (''s2'', ''s1'', 1)] \<and>
   interval_transfer (surfaces example_element) example_rcs diag_inv (1 / 1000000) False
     (pilot_at [pilot_x 1, pilot_x 2]) (pilot_at [pilot_x 2, pilot_x 4]) ''s1'' ''s2'' =
     Inr (state_diag 2, []) \<and>
   calculateXYUV example_element pilot_objs example_rcs diag_inv (1 / 1000000)
     example_pilotbundle there_and_back 0 0 False =
     Inr ([pilot_at [pilot_x 1, pilot_x 2], pilot_at [pilot_x 2, pilot_x 4],
           pilot_at [pilot_x 4, pilot_x 8], pilot_at [pilot_x 8]],
          [(''s1'', ''s2'', 1) \<mapsto> state_diag 2, (''s2'', ''s1'', 1) \<mapsto> state_diag (1 / 2),
           (''s2'', ''s1'', 1) \<mapsto> state_diag 2, (''s1'', ''s2'', 1) \<mapsto> state_diag (1 / 2)],
          []) \<and>
   [(''s1'', ''s2'', 1) \<mapsto> state_diag 2, (''s2'', ''s1'', 1) \<mapsto> state_diag (1 / 2),
    (''s2'', ''s1'', 1) \<mapsto> state_diag 2, (''s1'', ''s2'', 1) \<mapsto> state_diag (1 / 2)]
     (''s1'', ''s2'', 1 :: int) = Some (state_diag (1 / 2)) \<and>
   state_diag (1 / 2) \<noteq> state_diag 2"
proof -
  have run: "calculateXYUV example_element pilot_objs example_rcs diag_inv (1 / 1000000)
     example_pilotbundle there_and_back 0 0 False =
     Inr ([pilot_at [pilot_x 1, pilot_x 2], pilot_at [pilot_x 2, pilot_x 4],
           pilot_at [pilot_x 4, pilot_x 8], pilot_at [pilot_x 8]],
          [(''s1'', ''s2'', 1) \<mapsto> state_diag 2, (''s2'', ''s1'', 1) \<mapsto> state_diag (1 / 2),
           (''s2'', ''s1'', 1) \<mapsto> state_diag 2, (''s1'', ''s2'', 1) \<mapsto> state_diag (1 / 2)],
          [])"
    apply (simp add: calculateXYUV_def split_beta there_and_back_hitlist Let_def)
    apply (subst example_pilot_trace)
    apply (simp add: and_then_def example_pilot_paths py_index_def example_interval_1
        example_interval_2 state_diag_inv)
    done
  have ne: "state_diag (1 / 2) \<noteq> state_diag 2" by (simp add: state_diag_def)
  show ?thesis
    using there_and_back_hitlist example_interval_1 run ne by simp
qed

section \<open>Properties of the dispersion formulas\<close>

text \<open>
  Claim C9. For each of the two unimplemented dispersion formulas (\<^verbatim>\<open>"formula  8"\<close>, Retro,
  and \<^verbatim>\<open>"formula  9"\<close>, Exotic), constructing an \<^verbatim>\<open>IndexFormulaContainer\<close> with it and then
  calling \<^verbatim>\<open>get_n\<close> at any wavelength ends in an exception, never in a number. When the
  construction succeeds, \<^verbatim>\<open>get_n\<close> raises \<^verbatim>\<open>NotImplementedError\<close> for formula 9, and for
  formula 8 (whose function is stored under the attribute \<^verbatim>\<open>n_fucntion\<close>, so that
  \<^verbatim>\<open>n_function\<close> does not exist) \<^verbatim>\<open>AttributeError\<close>.
\<close>

theorem unimplemented_formula_fails:
  assumes "n_typ = PyStr ''formula  8'' \<or> n_typ = PyStr ''formula  9''"
  shows "(\<exists>e. (case IndexFormulaContainer np n_typ n_coeff0 k_typ k_coeff0 of
                  Inl e \<Rightarrow> Inl e
                | Inr self \<Rightarrow> get_n np self wavelength) = Inl e) \<and>
         (\<forall>self. IndexFormulaContainer np n_typ n_coeff0 k_typ k_coeff0 = Inr self \<longrightarrow>
            get_n np self wavelength =
              Inl (if n_typ = PyStr ''formula  8'' then AttributeError
                   else NotImplementedError))"
proof -
  have after: "get_n np self wavelength =
      Inl (if n_typ = PyStr ''formula  8'' then AttributeError else NotImplementedError)"
    if "IndexFormulaContainer np n_typ n_coeff0 k_typ k_coeff0 = Inr self" for self
    using that assms
    by (auto simp add: IndexFormulaContainer_def set_n_function_def set_k_function_def
        new_object_def get_n_def Let_def split: sum.splits if_splits)
  then show ?thesis
    by (cases "IndexFormulaContainer np n_typ n_coeff0 k_typ k_coeff0") auto
qed

text \<open>Both formulas on a lossless material with two coefficients, at wavelength 0.5.\<close>

theorem unimplemented_formula_fails_witness:
  "IndexFormulaContainer example_numerics (PyStr ''formula  8'') [1, 2] (PyInt 0) [] =
     Inr \<lparr>n_coeff = Some [1, 2], n_function = None, n_fucntion = Some (Formula Retro),
          k_coeff = Some [], k_function = Some Lossless\<rparr> \<and>
   get_n example_numerics
     \<lparr>n_coeff = Some [1, 2], n_function = None, n_fucntion = Some (Formula Retro),
      k_coeff = Some [], k_function = Some Lossless\<rparr> 0.5 = Inl AttributeError \<and>
   IndexFormulaContainer example_numerics (PyStr ''formula  9'') [1, 2] (PyInt 0) [] =
     Inr \<lparr>n_coeff = Some [1, 2], n_function = Some (Formula Exotic), n_fucntion = None,
          k_coeff = Some [], k_function = Some Lossless\<rparr> \<and>
   get_n example_numerics
     \<lparr>n_coeff = Some [1, 2], n_function = Some (Formula Exotic), n_fucntion = None,
      k_coeff = Some [], k_function = Some Lossless\<rparr> 0.5 = Inl NotImplementedError"
proof -
  have c8: "IndexFormulaContainer example_numerics (PyStr ''formula  8'') [1, 2] (PyInt 0) [] =
     Inr \<lparr>n_coeff = Some [1, 2], n_function = None, n_fucntion = Some (Formula Retro),
          k_coeff = Some [], k_function = Some Lossless\<rparr>"
    by (simp add: IndexFormulaContainer_def set_n_function_def set_k_function_def
        new_object_def Let_def)
  have c9: "IndexFormulaContainer example_numerics (PyStr ''formula  9'') [1, 2] (PyInt 0) [] =
     Inr \<lparr>n_coeff = Some [1, 2], n_function = Some (Formula Exotic), n_fucntion = None,
          k_coeff = Some [], k_function = Some Lossless\<rparr>"
    by (simp add: IndexFormulaContainer_def set_n_function_def set_k_function_def
        new_object_def Let_def)
  from unimplemented_formula_fails [where n_typ = "PyStr ''formula  8''" and
      np = example_numerics and ?n_coeff0.0 = "[1, 2]" and k_typ = "PyInt 0" and
      ?k_coeff0.0 = "[]" and wavelength = "0.5"] c8
    unimplemented_formula_fails [where n_typ = "PyStr ''formula  9''" and
      np = example_numerics and ?n_coeff0.0 = "[1, 2]" and k_typ = "PyInt 0" and
      ?k_coeff0.0 = "[]" and wavelength = "0.5"] c9
  show ?thesis by simp
qed

end
